theory Spec2Isabelle
  imports Complex_Main
begin

section \<open>Data model of \<open>irrep/gvectors.py\<close>\<close>

text \<open>
  Floating-point numbers of the source (k-point coordinates, lattice vectors, energies,
  cutoffs) are modelled as exact reals, NumPy integer arrays as lists of integers.
  A G-vector is an integer triple; the reciprocal lattice is a triple of rows.
\<close>

type_synonym gvec = "int \<times> int \<times> int"
type_synonym vec3 = "real \<times> real \<times> real"
type_synonym mat3 = "vec3 \<times> vec3 \<times> vec3"

text \<open>
  The exceptions the module can raise.  \<open>StuckError\<close> and \<open>CountMismatch\<close> are the two
  \<open>RuntimeError\<close>s of \<open>calc_gvectors\<close>, \<open>NoPairError\<close> the \<open>RuntimeError\<close> of
  \<open>transformed_g\<close>; \<open>NotSymmetryError\<close> is the module's own subclass of it.
  \<open>ValueError\<close> (reduction of an empty array), \<open>IndexError\<close> and \<open>LinAlgError\<close>
  (singular matrix) come from NumPy.
\<close>

datatype error =
    StuckError
  | CountMismatch
  | NotSymmetryError
  | NoPairError
  | ValueError
  | IndexError
  | LinAlgError

fun is_RuntimeError :: "error \<Rightarrow> bool" where
  "is_RuntimeError StuckError = True"
| "is_RuntimeError CountMismatch = True"
| "is_RuntimeError NotSymmetryError = True"
| "is_RuntimeError NoPairError = True"
| "is_RuntimeError ValueError = False"
| "is_RuntimeError IndexError = False"
| "is_RuntimeError LinAlgError = False"

text \<open>One column of the returned \<open>6 \<times> N\<close> integer array.\<close>

record gcol =
  g1 :: int
  g2 :: int
  g3 :: int
  ord :: int
  shell_start :: int
  shell_end :: int

definition gvec_of :: "gcol \<Rightarrow> gvec" where
  "gvec_of c = (g1 c, g2 c, g3 c)"

section \<open>Kinetic energy\<close>

definition twomhbar2 :: real where
  "twomhbar2 = 262465831 / 1000000000 * (1 + 0)"

text \<open>\<open>(K + igp).dot(B)\<close>: a row vector times the matrix whose rows are the basis vectors.\<close>

fun vecmat :: "vec3 \<Rightarrow> mat3 \<Rightarrow> vec3" where
  "vecmat (x, y, z) ((b00, b01, b02), (b10, b11, b12), (b20, b21, b22)) =
     (x * b00 + y * b10 + z * b20,
      x * b01 + y * b11 + z * b21,
      x * b02 + y * b12 + z * b22)"

fun norm3 :: "vec3 \<Rightarrow> real" where
  "norm3 (x, y, z) = sqrt (x * x + y * y + z * z)"

fun kplusg :: "vec3 \<Rightarrow> gvec \<Rightarrow> vec3" where
  "kplusg (k1, k2, k3) (a, b, c) = (k1 + of_int a, k2 + of_int b, k3 + of_int c)"

definition etot :: "vec3 \<Rightarrow> mat3 \<Rightarrow> gvec \<Rightarrow> real" where
  "etot K B igp = (norm3 (vecmat (kplusg K igp) B))\<^sup>2 / twomhbar2"

section \<open>Enumeration of integer triples\<close>

text \<open>
  \<open>set([-d, d])\<close>: one element when \<open>d = 0\<close>, two otherwise.  The order in which Python
  iterates over a set is not part of the language (CPython visits \<open>d\<close> before \<open>-d\<close> for
  \<open>d = 1, 2, 3\<close>); the model fixes the order \<open>-d, d\<close>.  The order decides only where
  vectors of equal key and equal energy stand in the table: the theorems about
  \<open>calc_gvectors\<close> below speak of counts, bounds, sortedness, distinctness and shell
  membership, which are the same for either order, and a table that a theorem evaluates
  through \<open>calc_gvectors\<close> is the table of the model's order.
\<close>

definition ig1_values :: "int \<Rightarrow> int list" where
  "ig1_values d = remdups [- d, d]"

text \<open>The triples visited by the three nested \<open>for\<close> loops at radius \<open>N\<close>, in order.\<close>

definition radius_triples :: "int \<Rightarrow> gvec list" where
  "radius_triples N =
     concat (map (\<lambda>ig3.
       concat (map (\<lambda>ig2.
         map (\<lambda>ig1. (ig1, ig2, ig3)) (ig1_values (N - \<bar>ig3\<bar> - \<bar>ig2\<bar>)))
         [- (N - \<bar>ig3\<bar>) .. N - \<bar>ig3\<bar>]))
       [- N .. N])"

text \<open>
  The body of the three loops appends a triple and its energy when the energy is below
  \<open>Ecut\<close>; \<open>flag\<close> stays \<open>True\<close> when the radius contributes nothing.
\<close>

definition found_at :: "vec3 \<Rightarrow> mat3 \<Rightarrow> real \<Rightarrow> int \<Rightarrow> gvec list" where
  "found_at K B Ecut N = filter (\<lambda>igp. etot K B igp < Ecut) (radius_triples N)"

section \<open>The enumeration loop of \<open>calc_gvectors\<close>\<close>

text \<open>
  \<open>nplane\<close> is an integer or \<open>np.Inf\<close>; \<open>None\<close> stands for \<open>np.Inf\<close>.  The three tests
  of the source on it: \<open>len(igall) >= nplane / 2\<close> (true division),
  \<open>len(igall) >= nplane\<close> and \<open>nplane < np.Inf\<close>.
\<close>

definition ge_half :: "nat \<Rightarrow> int option \<Rightarrow> bool" where
  "ge_half n nplane = (case nplane of None \<Rightarrow> False | Some p \<Rightarrow> real n \<ge> real_of_int p / 2)"

definition ge_nplane :: "nat \<Rightarrow> int option \<Rightarrow> bool" where
  "ge_nplane n nplane = (case nplane of None \<Rightarrow> False | Some p \<Rightarrow> int n \<ge> p)"

text \<open>
  \<open>for N in range(nplanemax)\<close> with its \<open>break\<close>s and its \<open>raise\<close>.  The state is
  \<open>igall\<close>, \<open>Eg\<close> and the sliding window \<open>memory\<close>; the \<open>print\<close> every tenth
  radius is left out.  The result tells whether the "stuck" error was raised, and carries
  \<open>igall\<close>, \<open>Eg\<close> as they were at that moment and the number of iterations of the
  outer loop that were entered.
\<close>

function enum_loop ::
  "vec3 \<Rightarrow> mat3 \<Rightarrow> real \<Rightarrow> int option \<Rightarrow> bool \<Rightarrow> int \<Rightarrow>
   int \<Rightarrow> gvec list \<Rightarrow> real list \<Rightarrow> bool list \<Rightarrow> bool \<times> gvec list \<times> real list \<times> int" where
  "enum_loop K B Ecut nplane spinor nplanemax N igall Eg memory =
     (if nplanemax \<le> N then (False, igall, Eg, N)
      else if ge_half (length igall) nplane \<and> spinor then (False, igall, Eg, N + 1)
      else if ge_half (length igall) nplane \<and> ge_nplane (length igall) nplane
        then (False, igall, Eg, N + 1)
      else if ge_half (length igall) nplane \<and> list_all (\<lambda>m. m) memory
        then (True, igall, Eg, N + 1)
      else
        (let found = found_at K B Ecut N;
             flag = (found = [])
         in enum_loop K B Ecut nplane spinor nplanemax (N + 1)
              (igall @ found) (Eg @ map (etot K B) found) (tl memory @ [flag])))"
  by pat_completeness auto
termination
  by (relation "measure (\<lambda>(K, B, Ecut, nplane, spinor, nplanemax, N, igall, Eg, memory).
        nat (nplanemax - N))") auto

declare enum_loop.simps [simp del]

text \<open>
  The head of the loop body leaves the loop (by \<open>break\<close> or by the "stuck" error) exactly
  when the count has reached \<open>nplane / 2\<close> and the wave functions are spinors, or the count
  has reached \<open>nplane\<close>, or the last ten radii were empty.
\<close>

definition stops :: "int option \<Rightarrow> bool \<Rightarrow> nat \<Rightarrow> bool list \<Rightarrow> bool" where
  "stops nplane spinor n memory =
     (ge_half n nplane \<and> (spinor \<or> ge_nplane n nplane \<or> list_all (\<lambda>m. m) memory))"

section \<open>Ordering and grouping\<close>

text \<open>NumPy's integer remainder: the sign of the divisor, and \<open>0\<close> for a zero divisor.\<close>

definition np_mod :: "int \<Rightarrow> int \<Rightarrow> int" where
  "np_mod a n = (if n = 0 then 0 else a mod n)"

text \<open>
  \<open>np.argsort\<close>: the indices that sort the keys.  NumPy's default sort does not promise
  an order among equal keys; the model leaves them in the order of the input.  As for
  \<open>ig1_values\<close>, this decides only where entries of equal key stand in the table.
\<close>

definition argsort :: "'a::linorder list \<Rightarrow> nat list" where
  "argsort ks = map snd (sort_key fst (zip ks [0..<length ks]))"

text \<open>\<open>xs[p]\<close> for an index array \<open>p\<close> that \<open>argsort\<close> returned.\<close>

definition take_idx :: "'a list \<Rightarrow> nat list \<Rightarrow> 'a list" where
  "take_idx xs p = map (\<lambda>i. xs ! i) p"

text \<open>\<open>xs[bs]\<close> for a boolean mask \<open>bs\<close> of the length of \<open>xs\<close>.\<close>

definition mask :: "bool list \<Rightarrow> 'a list \<Rightarrow> 'a list" where
  "mask bs xs = map snd (filter fst (zip bs xs))"

definition list_max :: "int list \<Rightarrow> int" where
  "list_max xs = fold max (tl xs) (hd xs)"

definition list_min :: "int list \<Rightarrow> int" where
  "list_min xs = fold min (tl xs) (hd xs)"

text \<open>
  \<open>[0] + list(np.where(Eg[1:] - Eg[:-1] > thresh)[0] + 1) + [igall.shape[1]]\<close>
\<close>

definition walls :: "real list \<Rightarrow> real \<Rightarrow> nat list" where
  "walls Eg thresh =
     [0] @ map (\<lambda>i. i + 1) (filter (\<lambda>i. Eg ! (i + 1) - Eg ! i > thresh) [0..<length Eg - 1])
         @ [length Eg]"

text \<open>\<open>igall[4, a:b] = a; igall[5, a:b] = b\<close>\<close>

definition set_shell :: "nat \<Rightarrow> nat \<Rightarrow> gcol list \<Rightarrow> gcol list" where
  "set_shell a b tbl =
     map (\<lambda>(j, c). if a \<le> j \<and> j < b then c\<lparr>shell_start := int a, shell_end := int b\<rparr> else c)
         (zip [0..<length tbl] tbl)"

text \<open>\<open>for i in range(len(wall) - 1)\<close>: one assignment for every two neighbours of \<open>wall\<close>.\<close>

fun fill_shells :: "nat list \<Rightarrow> gcol list \<Rightarrow> gcol list" where
  "fill_shells (a # b # ws) tbl = fill_shells (b # ws) (set_shell a b tbl)"
| "fill_shells ws tbl = tbl"

text \<open>
  Lines 150 to 158: the component-wise span \<open>ng\<close>, the residues, the mixed-radix key and
  the reordering of \<open>igall\<close> and \<open>Eg\<close> by it.  Only called on a non-empty \<open>igall\<close>.
\<close>

definition canonical_order :: "gvec list \<Rightarrow> real list \<Rightarrow> gvec list \<times> real list" where
  "canonical_order igall Eg =
     (let ng0 = list_max (map fst igall) - list_min (map fst igall);
          ng1 = list_max (map (fst \<circ> snd) igall) - list_min (map (fst \<circ> snd) igall);
          ng2 = list_max (map (snd \<circ> snd) igall) - list_min (map (snd \<circ> snd) igall);
          igall1 = map (\<lambda>(a, b, c). (np_mod a ng0, np_mod b ng1, np_mod c ng2)) igall;
          igallsrt = argsort (map (\<lambda>(r0, r1, r2). (r2 * ng1 + r1) * ng0 + r0) igall1)
      in (take_idx igall igallsrt, take_idx Eg igallsrt))"

text \<open>
  Lines 160 to 172: the six-column table with the running index in column 3, the cut at
  \<open>Ecut1\<close>, the sort by energy and the shell bounds.
\<close>

definition cut_sort_group :: "gvec list \<Rightarrow> real list \<Rightarrow> real \<Rightarrow> real \<Rightarrow> gcol list" where
  "cut_sort_group igall1 Eg Ecut1 thresh =
     (let tbl0 = map (\<lambda>(i, (a, b, c)).
                   \<lparr>g1 = a, g2 = b, g3 = c, ord = int i, shell_start = 0, shell_end = 0\<rparr>)
                   (zip [0..<length igall1] igall1);
          keep = map (\<lambda>e. e \<le> Ecut1) Eg;
          tbl1 = mask keep tbl0;
          Eg1 = mask keep Eg;
          srt = argsort Eg1;
          Eg2 = take_idx Eg1 srt;
          tbl2 = take_idx tbl1 srt
      in fill_shells (walls Eg2 thresh) tbl2)"

text \<open>
  \<open>calc_gvectors\<close>.  An \<open>Ecut1\<close> that is not positive stands for \<open>Ecut\<close>.  Taking the
  maximum of an empty array raises \<open>ValueError\<close> in NumPy.
\<close>

definition calc_gvectors ::
  "vec3 \<Rightarrow> mat3 \<Rightarrow> real \<Rightarrow> int option \<Rightarrow> real \<Rightarrow> real \<Rightarrow> bool \<Rightarrow> int \<Rightarrow> error + gcol list" where
  "calc_gvectors K RecLattice Ecut nplane Ecut1 thresh spinor nplanemax =
     (let Ecut1' = (if Ecut1 \<le> 0 then Ecut else Ecut1);
          (stuck, igall, Eg, rounds) =
             enum_loop K RecLattice Ecut nplane spinor nplanemax 0 [] [] (replicate 10 True);
          ncnt = length igall
      in if stuck then Inl StuckError
         else if nplane \<noteq> None \<and> spinor \<and> Some (2 * int ncnt) \<noteq> nplane then Inl CountMismatch
         else if nplane \<noteq> None \<and> \<not> spinor \<and> Some (int ncnt) \<noteq> nplane then Inl CountMismatch
         else if igall = [] then Inl ValueError
         else (let (igall1, Eg1) = canonical_order igall Eg
               in Inr (cut_sort_group igall1 Eg1 Ecut1' thresh)))"

section \<open>The rotation mapper \<open>transformed_g\<close>\<close>

fun det3 :: "mat3 \<Rightarrow> real" where
  "det3 ((a, b, c), (d, e, f), (g, h, i)) =
     a * (e * i - f * h) - b * (d * i - f * g) + c * (d * h - e * g)"

text \<open>
  \<open>np.linalg.inv\<close>, exact: the adjugate over the determinant.  On a singular matrix
  NumPy raises \<open>LinAlgError\<close> when its factorisation meets a zero pivot and otherwise
  returns numbers that are no inverse; the model has the error there, and every theorem
  below that speaks of the inverse assumes \<open>inv3 A = Inr Ainv\<close>, an invertible \<open>A\<close>.
\<close>

fun inv3 :: "mat3 \<Rightarrow> error + mat3" where
  "inv3 ((a, b, c), (d, e, f), (g, h, i)) =
     (let D = det3 ((a, b, c), (d, e, f), (g, h, i))
      in if D = 0 then Inl LinAlgError
         else Inr (((e * i - f * h) / D, (c * h - b * i) / D, (b * f - c * e) / D),
                   ((f * g - d * i) / D, (a * i - c * g) / D, (c * d - a * f) / D),
                   ((d * h - e * g) / D, (b * g - a * h) / D, (a * e - b * d) / D)))"

fun transpose3 :: "mat3 \<Rightarrow> mat3" where
  "transpose3 ((a, b, c), (d, e, f), (g, h, i)) = ((a, d, g), (b, e, h), (c, f, i))"

fun dot3 :: "vec3 \<Rightarrow> vec3 \<Rightarrow> real" where
  "dot3 (a, b, c) (x, y, z) = a * x + b * y + c * z"

text \<open>\<open>M.dot(v)\<close> for a matrix and a vector.\<close>

fun matvec :: "mat3 \<Rightarrow> vec3 \<Rightarrow> vec3" where
  "matvec (r0, r1, r2) v = (dot3 r0 v, dot3 r1 v, dot3 r2 v)"

text \<open>
  \<open>np.round\<close>: to the nearest integer, a half to the even neighbour.  The source stores
  the rounded values as 64-bit integers (\<open>dtype=int\<close>, lines 211 and 222), which is the
  rounding itself as long as it lies in the 64-bit range; \<open>fits_int64\<close> says that a
  triple does.
\<close>

definition np_round :: "real \<Rightarrow> int" where
  "np_round x =
     (let f = \<lfloor>x\<rfloor>; d = x - of_int f
      in if d < 1 / 2 then f
         else if 1 / 2 < d then f + 1
         else if even f then f else f + 1)"

fun fits_int64 :: "gvec \<Rightarrow> bool" where
  "fits_int64 (a, b, c) =
     (- (2 ^ 63) \<le> a \<and> a < 2 ^ 63 \<and> - (2 ^ 63) \<le> b \<and> b < 2 ^ 63 \<and>
      - (2 ^ 63) \<le> c \<and> c < 2 ^ 63)"

text \<open>\<open>np.isclose(a, b)\<close> with its default tolerances \<open>rtol = 1e-5\<close>, \<open>atol = 1e-8\<close>.\<close>

definition isclose :: "real \<Rightarrow> real \<Rightarrow> bool" where
  "isclose a b = (\<bar>a - b\<bar> \<le> 1 / 100000000 + 1 / 100000 * \<bar>b\<bar>)"

text \<open>Python indexing of a list: a negative index counts from the end.\<close>

definition py_get :: "'a list \<Rightarrow> int \<Rightarrow> error + 'a" where
  "py_get xs j =
     (let n = int (length xs); j' = (if j < 0 then j + n else j)
      in if 0 \<le> j' \<and> j' < n then Inr (xs ! nat j') else Inl IndexError)"

text \<open>
  \<open>for j in range(lo, hi)\<close>: the first \<open>j\<close> whose column carries the triple \<open>t\<close>, if any.
\<close>

function search :: "gvec \<Rightarrow> gcol list \<Rightarrow> int \<Rightarrow> int \<Rightarrow> error + int option" where
  "search t ig j hi =
     (if hi \<le> j then Inr None
      else case py_get ig j of
             Inl e \<Rightarrow> Inl e
           | Inr c \<Rightarrow> if t = gvec_of c then Inr (Some j) else search t ig (j + 1) hi)"
  by pat_completeness auto
termination
  by (relation "measure (\<lambda>(t, ig, j, hi). nat (hi - j))") auto

declare search.simps [simp del]

text \<open>
  \<open>for i in range(ng)\<close>: \<open>rotind[i]\<close> starts as \<open>-1\<close>, takes the first match of the
  search, and the loop raises when it is still \<open>-1\<close> afterwards.
\<close>

fun rot_entries :: "gcol list \<Rightarrow> (gvec \<times> gcol) list \<Rightarrow> error + int list" where
  "rot_entries ig [] = Inr []"
| "rot_entries ig ((t, c) # rest) =
     (case search t ig (shell_start c) (shell_end c) of
        Inl e \<Rightarrow> Inl e
      | Inr r \<Rightarrow>
          (let v = (case r of None \<Rightarrow> - 1 | Some j \<Rightarrow> j)
           in if v = - 1 then Inl NoPairError
              else case rot_entries ig rest of
                     Inl e \<Rightarrow> Inl e
                   | Inr vs \<Rightarrow> Inr (v # vs)))"

text \<open>\<open>kpt_ - kpt\<close> and its rounding \<open>dkpt\<close>.\<close>

fun vsub :: "vec3 \<Rightarrow> vec3 \<Rightarrow> vec3" where
  "vsub (a, b, c) (x, y, z) = (a - x, b - y, c - z)"

fun round3 :: "vec3 \<Rightarrow> gvec" where
  "round3 (x, y, z) = (np_round x, np_round y, np_round z)"

fun isclose3 :: "gvec \<Rightarrow> vec3 \<Rightarrow> bool" where
  "isclose3 (a, b, c) (x, y, z) =
     (isclose (of_int a) x \<and> isclose (of_int b) y \<and> isclose (of_int c) z)"

text \<open>One column of \<open>igTr\<close>: \<open>round(B.dot(g) + dkpt)\<close>.\<close>

fun transform_col :: "mat3 \<Rightarrow> gvec \<Rightarrow> gcol \<Rightarrow> gvec" where
  "transform_col B (d1, d2, d3) c =
     (case matvec B (of_int (g1 c), of_int (g2 c), of_int (g3 c)) of
        (x, y, z) \<Rightarrow> round3 (x + of_int d1, y + of_int d2, z + of_int d3))"

definition igTr_of :: "mat3 \<Rightarrow> gvec \<Rightarrow> gcol list \<Rightarrow> gvec list" where
  "igTr_of B dkpt ig = map (transform_col B dkpt) ig"

definition transformed_g :: "vec3 \<Rightarrow> gcol list \<Rightarrow> mat3 \<Rightarrow> mat3 \<Rightarrow> error + int list" where
  "transformed_g kpt ig RecLattice A =
     (case inv3 A of
        Inl e \<Rightarrow> Inl e
      | Inr Ainv \<Rightarrow>
          (let B = transpose3 Ainv;
               kpt' = matvec B kpt;
               dkpt = round3 (vsub kpt' kpt)
           in if \<not> isclose3 dkpt (vsub kpt' kpt) then Inl NotSymmetryError
              else rot_entries ig (zip (igTr_of B dkpt ig) ig)))"

text \<open>\<open>K' - K\<close> for the inverse \<open>Ainv\<close> of the rotation: \<open>inv(A).T.dot(kpt) - kpt\<close>.\<close>

definition kpt_shift :: "mat3 \<Rightarrow> vec3 \<Rightarrow> vec3" where
  "kpt_shift Ainv kpt = vsub (matvec (transpose3 Ainv) kpt) kpt"

text \<open>
  What an entry \<open>v\<close> of \<open>rotind\<close> has to be for a column \<open>c\<close> with transformed triple
  \<open>t\<close>: an index inside the shell of \<open>c\<close> whose column carries \<open>t\<close>.
\<close>

definition pair_ok :: "gcol list \<Rightarrow> gvec \<times> gcol \<Rightarrow> int \<Rightarrow> bool" where
  "pair_ok ig p v =
     (shell_start (snd p) \<le> v \<and> v < shell_end (snd p) \<and>
      (\<exists>c. py_get ig v = Inr c \<and> gvec_of c = fst p))"

section \<open>The evaluators \<open>symm_eigenvalues\<close> and \<open>symm_matrix\<close>\<close>

text \<open>
  \<open>v.dot(igall[:3, :] + K[:, None])\<close>: the vector \<open>v\<close> against every column of the
  \<open>3 \<times> N\<close> array of the \<open>G + K\<close>.
\<close>

definition dot_cols :: "vec3 \<Rightarrow> vec3 \<Rightarrow> gcol list \<Rightarrow> real list" where
  "dot_cols v K igall = map (\<lambda>c. dot3 v (kplusg K (gvec_of c))) igall"

text \<open>\<open>np.exp(-1.0j * (2 * np.pi * xs))\<close>, element by element.\<close>

definition exp_phase :: "real list \<Rightarrow> complex list" where
  "exp_phase xs = map (\<lambda>x. exp (- \<i> * complex_of_real (2 * pi * x))) xs"

text \<open>\<open>multZ\<close> of \<open>symm_eigenvalues\<close> (line 288) and of \<open>symm_matrix\<close> (line 347).\<close>

definition multZ_eigenvalues :: "vec3 \<Rightarrow> gcol list \<Rightarrow> mat3 \<Rightarrow> vec3 \<Rightarrow> error + complex list" where
  "multZ_eigenvalues K igall A T =
     (case inv3 A of
        Inl e \<Rightarrow> Inl e
      | Inr Ainv \<Rightarrow> Inr (exp_phase (dot_cols (matvec Ainv T) K igall)))"

definition multZ_matrix :: "vec3 \<Rightarrow> gcol list \<Rightarrow> mat3 \<Rightarrow> vec3 \<Rightarrow> complex list" where
  "multZ_matrix K igall A T = exp_phase (dot_cols (matvec A T) K igall)"

text \<open>
  The phase of the specification, for one G-vector and a translation vector \<open>v\<close>:
  \<open>exp(-2\<pi>i \<cdot> v\<cdot>(G + K))\<close>.
\<close>

definition spec_phase :: "vec3 \<Rightarrow> vec3 \<Rightarrow> gvec \<Rightarrow> complex" where
  "spec_phase v K G = exp (- (2 * complex_of_real pi * \<i>) * complex_of_real (dot3 v (kplusg K G)))"

text \<open>
  The coefficient matrix \<open>WF\<close> has one row for every band and, as the data model
  prescribes, \<open>npw1\<close> columns, or \<open>2 * npw1\<close> for spinors (spin up first).  A band is given
  by its coefficients as a function of the column index, read on the columns below that
  width only; a matrix of another width, on which NumPy raises or broadcasts according to
  the width, is outside the model.  With the prescribed width every index that
  \<open>transformed_g\<close> returned is in range; \<open>wf_at\<close> reads one coefficient of a row of the
  given width, a negative index counting from the end.
\<close>

type_synonym band = "nat \<Rightarrow> complex"

definition wf_at :: "nat \<Rightarrow> band \<Rightarrow> int \<Rightarrow> complex" where
  "wf_at width row j = row (nat (if j < 0 then j + int width else j))"

type_synonym mat2 = "(complex \<times> complex) \<times> (complex \<times> complex)"

text \<open>One band of the trace, without and with spinors (lines 293 to 301).\<close>

definition trace_scalar :: "band \<Rightarrow> int list \<Rightarrow> complex list \<Rightarrow> nat \<Rightarrow> complex" where
  "trace_scalar row igrot multZ npw1 =
     (\<Sum>g\<leftarrow>[0..<npw1]. cnj (wf_at npw1 row (igrot ! g)) * row g * multZ ! g)"

fun trace_spinor :: "band \<Rightarrow> int list \<Rightarrow> complex list \<Rightarrow> nat \<Rightarrow> mat2 \<Rightarrow> complex" where
  "trace_spinor row igrot multZ npw1 ((s00, s01), (s10, s11)) =
     (\<Sum>g\<leftarrow>[0..<npw1].
        (cnj (wf_at (2 * npw1) row (igrot ! g)) * row g * s00
         + (cnj (wf_at (2 * npw1) row (igrot ! g + int npw1)) * row (npw1 + g) * s11
            + cnj (wf_at (2 * npw1) row (igrot ! g)) * row (npw1 + g) * s01
            + cnj (wf_at (2 * npw1) row (igrot ! g + int npw1)) * row g * s10))
        * multZ ! g)"

definition symm_eigenvalues ::
  "vec3 \<Rightarrow> mat3 \<Rightarrow> band list \<Rightarrow> gcol list \<Rightarrow> mat3 \<Rightarrow> mat2 \<Rightarrow> vec3 \<Rightarrow> bool
     \<Rightarrow> error + complex list" where
  "symm_eigenvalues K RecLattice WF igall A S T spinor =
     (let npw1 = length igall
      in case multZ_eigenvalues K igall A T of
           Inl e \<Rightarrow> Inl e
         | Inr multZ \<Rightarrow>
            (case transformed_g K igall RecLattice A of
               Inl e \<Rightarrow> Inl e
             | Inr igrot \<Rightarrow>
                if spinor then Inr (map (\<lambda>row. trace_spinor row igrot multZ npw1 S) WF)
                else Inr (map (\<lambda>row. trace_scalar row igrot multZ npw1) WF)))"

text \<open>
  One element of the matrix: \<open>einsum("mg,ng,g->mn", \<dots>)\<close> without spinors,
  \<open>einsum("mgs,ngt,g,st->mn", \<dots>)\<close> with them (lines 350 to 355).
\<close>

definition elem_scalar :: "band \<Rightarrow> band \<Rightarrow> int list \<Rightarrow> complex list \<Rightarrow> nat \<Rightarrow> complex" where
  "elem_scalar rowm rown igrot multZ npw1 =
     (\<Sum>g\<leftarrow>[0..<npw1]. cnj (wf_at npw1 rowm (igrot ! g)) * rown g * multZ ! g)"

fun elem_spinor ::
  "band \<Rightarrow> band \<Rightarrow> int list \<Rightarrow> complex list \<Rightarrow> nat \<Rightarrow> mat2 \<Rightarrow> complex" where
  "elem_spinor rowm rown igrot multZ npw1 ((s00, s01), (s10, s11)) =
     (\<Sum>g\<leftarrow>[0..<npw1].
        cnj (wf_at (2 * npw1) rowm (igrot ! g)) * rown g * multZ ! g * s00
        + cnj (wf_at (2 * npw1) rowm (igrot ! g)) * rown (npw1 + g) * multZ ! g * s01
        + cnj (wf_at (2 * npw1) rowm (igrot ! g + int npw1)) * rown g * multZ ! g * s10
        + cnj (wf_at (2 * npw1) rowm (igrot ! g + int npw1)) * rown (npw1 + g) * multZ ! g * s11)"

definition symm_matrix ::
  "vec3 \<Rightarrow> mat3 \<Rightarrow> band list \<Rightarrow> gcol list \<Rightarrow> mat3 \<Rightarrow> mat2 \<Rightarrow> vec3 \<Rightarrow> bool
     \<Rightarrow> error + complex list list" where
  "symm_matrix K RecLattice WF igall A S T spinor =
     (let npw1 = length igall;
          multZ = multZ_matrix K igall A T
      in case transformed_g K igall RecLattice A of
           Inl e \<Rightarrow> Inl e
         | Inr igrot \<Rightarrow>
            if spinor
            then Inr (map (\<lambda>rowm. map (\<lambda>rown. elem_spinor rowm rown igrot multZ npw1 S) WF) WF)
            else Inr (map (\<lambda>rowm. map (\<lambda>rown. elem_scalar rowm rown igrot multZ npw1) WF) WF))"

text \<open>The diagonal of a square matrix given as a list of rows.\<close>

definition diagonal :: "'a list list \<Rightarrow> 'a list" where
  "diagonal M = map (\<lambda>m. M ! m ! m) [0..<length M]"

section \<open>Facts about the energy and the loop\<close>

lemma etot_code [code]:
  "etot K B igp =
     (case vecmat (kplusg K igp) B of (x, y, z) \<Rightarrow> (x * x + y * y + z * z) / twomhbar2)"
  by (cases K; cases B; cases igp) (auto simp: etot_def split: prod.splits)

lemma etot_nonneg: "0 \<le> etot K B igp"
  by (simp add: etot_def twomhbar2_def)

lemma enum_loop_exhausted:
  "nplanemax \<le> N \<Longrightarrow>
     enum_loop K B Ecut nplane spinor nplanemax N igall Eg memory = (False, igall, Eg, N)"
  by (subst enum_loop.simps) simp

lemma enum_loop_stop:
  "\<not> nplanemax \<le> N \<Longrightarrow> stops nplane spinor (length igall) memory \<Longrightarrow>
     enum_loop K B Ecut nplane spinor nplanemax N igall Eg memory =
       (\<not> spinor \<and> \<not> ge_nplane (length igall) nplane, igall, Eg, N + 1)"
  by (subst enum_loop.simps) (auto simp: stops_def)

lemma enum_loop_continue:
  "\<not> nplanemax \<le> N \<Longrightarrow> \<not> stops nplane spinor (length igall) memory \<Longrightarrow>
     enum_loop K B Ecut nplane spinor nplanemax N igall Eg memory =
       enum_loop K B Ecut nplane spinor nplanemax (N + 1)
         (igall @ found_at K B Ecut N) (Eg @ map (etot K B) (found_at K B Ecut N))
         (tl memory @ [found_at K B Ecut N = []])"
  by (subst enum_loop.simps) (auto simp: stops_def Let_def)

lemma enum_loop_rounds:
  "enum_loop K B Ecut nplane spinor nplanemax N igall Eg memory = (stuck, ig, eg, r)
     \<Longrightarrow> N \<le> r \<and> r \<le> max N nplanemax"
proof (induction K B Ecut nplane spinor nplanemax N igall Eg memory rule: enum_loop.induct)
  case (1 K B Ecut nplane spinor nplanemax N igall Eg memory)
  consider "nplanemax \<le> N"
    | "\<not> nplanemax \<le> N" "stops nplane spinor (length igall) memory"
    | "\<not> nplanemax \<le> N" "\<not> stops nplane spinor (length igall) memory"
    by blast
  then show ?case
  proof cases
    case 1
    with "1.prems" show ?thesis by (simp add: enum_loop_exhausted)
  next
    case 2
    with "1.prems" show ?thesis by (simp add: enum_loop_stop)
  next
    case 3
    with "1.prems" have "enum_loop K B Ecut nplane spinor nplanemax (N + 1)
        (igall @ found_at K B Ecut N) (Eg @ map (etot K B) (found_at K B Ecut N))
        (tl memory @ [found_at K B Ecut N = []]) = (stuck, ig, eg, r)"
      by (simp add: enum_loop_continue)
    with "1.IH" [OF _ _ _ _ refl refl] 3 have "N + 1 \<le> r \<and> r \<le> max (N + 1) nplanemax"
      by (auto simp: stops_def)
    with 3 show ?thesis by auto
  qed
qed


lemma enum_loop_inf:
  "enum_loop K B Ecut None spinor nplanemax N igall Eg memory =
     (False, igall @ concat (map (found_at K B Ecut) [N..nplanemax - 1]),
      Eg @ map (etot K B) (concat (map (found_at K B Ecut) [N..nplanemax - 1])), max N nplanemax)"
proof (induction K B Ecut "None :: int option" spinor nplanemax N igall Eg memory rule: enum_loop.induct)
  case (1 K B Ecut spinor nplanemax N igall Eg memory)
  show ?case
  proof (cases "nplanemax \<le> N")
    case True
    then show ?thesis
      by (simp add: enum_loop_exhausted)
  next
    case False
    then have up: "[N..nplanemax - 1] = N # [N + 1..nplanemax - 1]"
      by (simp add: upto_rec1)
    have ns: "\<not> stops None spinor (length igall) memory"
      by (simp add: stops_def ge_half_def)
    have "enum_loop K B Ecut None spinor nplanemax (N + 1)
        (igall @ found_at K B Ecut N) (Eg @ map (etot K B) (found_at K B Ecut N))
        (tl memory @ [found_at K B Ecut N = []]) =
       (False, (igall @ found_at K B Ecut N) @ concat (map (found_at K B Ecut) [N + 1..nplanemax - 1]),
      (Eg @ map (etot K B) (found_at K B Ecut N)) @ map (etot K B) (concat (map (found_at K B Ecut) [N + 1..nplanemax - 1])), max (N + 1) nplanemax)"
      using False by (intro "1.hyps" [OF _ _ _ _ refl refl]) (auto simp: ge_half_def)
    with False ns show ?thesis by (simp add: up enum_loop_continue)
  qed
qed

section \<open>Enumeration: each triple once\<close>

lemma count_list_concat_map:
  "count_list (concat (map f xs)) y = sum_list (map (\<lambda>x. count_list (f x) y) xs)"
  by (induction xs) simp_all

lemma count_list_map_triple:
  "count_list (map (\<lambda>ig1. (ig1, ig2, ig3)) xs) (a, b, c) =
     (if b = ig2 \<and> c = ig3 then count_list xs a else 0)"
  by (induction xs) auto

lemma count_ig1_values:
  "count_list (ig1_values d) a = (if a = d \<or> a = - d then 1 else 0)"
  by (auto simp: ig1_values_def)

lemma sum_list_delta_upto:
  "sum_list (map (\<lambda>x. if b = x then f x else (0::nat)) [lo..hi]) =
     (if lo \<le> b \<and> b \<le> hi then f b else 0)"
proof -
  have "sum_list (map (\<lambda>x. if b = x then f x else 0) [lo..hi]) =
        sum (\<lambda>x. if b = x then f x else 0) (set [lo..hi])"
    by (rule sum_list_distinct_conv_sum_set) simp
  also have "\<dots> = (if b \<in> set [lo..hi] then f b else 0)"
    by (simp add: sum.delta')
  finally show ?thesis by simp
qed

lemma count_inner:
  "count_list (concat (map (\<lambda>ig2.
         map (\<lambda>ig1. (ig1, ig2, ig3)) (ig1_values (M - \<bar>ig2\<bar>))) [- M .. M])) (a, b, c) =
     (if c = ig3 \<and> - M \<le> b \<and> b \<le> M \<and> (a = M - \<bar>b\<bar> \<or> a = - (M - \<bar>b\<bar>)) then 1 else 0)"
proof -
  have "count_list (concat (map (\<lambda>ig2.
         map (\<lambda>ig1. (ig1, ig2, ig3)) (ig1_values (M - \<bar>ig2\<bar>))) [- M .. M])) (a, b, c) =
        sum_list (map (\<lambda>ig2. if b = ig2
            then (if c = ig3 then count_list (ig1_values (M - \<bar>ig2\<bar>)) a else 0) else 0) [- M .. M])"
    unfolding count_list_concat_map count_list_map_triple
    by (rule arg_cong [where f = sum_list], rule map_cong) auto
  also have "\<dots> = (if - M \<le> b \<and> b \<le> M
            then (if c = ig3 then count_list (ig1_values (M - \<bar>b\<bar>)) a else 0) else 0)"
    by (rule sum_list_delta_upto)
  finally show ?thesis
    by (simp add: count_ig1_values)
qed

lemma count_radius_triples:
  "count_list (radius_triples N) (a, b, c) =
     (if - N \<le> c \<and> c \<le> N \<and> - (N - \<bar>c\<bar>) \<le> b \<and> b \<le> N - \<bar>c\<bar>
         \<and> (a = N - \<bar>c\<bar> - \<bar>b\<bar> \<or> a = - (N - \<bar>c\<bar> - \<bar>b\<bar>)) then 1 else 0)"
proof -
  have "count_list (radius_triples N) (a, b, c) =
        sum_list (map (\<lambda>ig3. if c = ig3
            then (if - (N - \<bar>ig3\<bar>) \<le> b \<and> b \<le> N - \<bar>ig3\<bar>
                     \<and> (a = N - \<bar>ig3\<bar> - \<bar>b\<bar> \<or> a = - (N - \<bar>ig3\<bar> - \<bar>b\<bar>)) then 1 else 0)
            else 0) [- N .. N])"
    unfolding radius_triples_def count_list_concat_map [of _ "[- N .. N]"] count_inner
    by (rule arg_cong [where f = sum_list], rule map_cong) auto
  also have "\<dots> = (if - N \<le> c \<and> c \<le> N
            then (if - (N - \<bar>c\<bar>) \<le> b \<and> b \<le> N - \<bar>c\<bar>
                     \<and> (a = N - \<bar>c\<bar> - \<bar>b\<bar> \<or> a = - (N - \<bar>c\<bar> - \<bar>b\<bar>)) then 1 else 0)
            else 0)"
    by (rule sum_list_delta_upto)
  finally show ?thesis by simp
qed

lemma count_radius_triples_l1:
  "count_list (radius_triples N) (a, b, c) = (if \<bar>a\<bar> + \<bar>b\<bar> + \<bar>c\<bar> = N then 1 else 0)"
  unfolding count_radius_triples by auto

lemma count_upto_radius:
  "count_list (concat (map radius_triples [0..M])) (a, b, c) =
     (if \<bar>a\<bar> + \<bar>b\<bar> + \<bar>c\<bar> \<le> M then 1 else 0)"
proof -
  have "count_list (concat (map radius_triples [0..M])) (a, b, c) =
        sum_list (map (\<lambda>N. if \<bar>a\<bar> + \<bar>b\<bar> + \<bar>c\<bar> = N then 1 else 0) [0..M])"
    unfolding count_list_concat_map count_radius_triples_l1 ..
  also have "\<dots> = (if 0 \<le> \<bar>a\<bar> + \<bar>b\<bar> + \<bar>c\<bar> \<and> \<bar>a\<bar> + \<bar>b\<bar> + \<bar>c\<bar> \<le> M then 1 else 0)"
    by (rule sum_list_delta_upto [where f = "\<lambda>_. 1"])
  finally show ?thesis by simp
qed

text \<open>
  C8.  At radius \<open>N\<close> the three nested loops visit exactly the integer triples with
  \<open>|g1| + |g2| + |g3| = N\<close>, each of them once (also when \<open>N - |g3| - |g2| = 0\<close>, where
  \<open>+g1\<close> and \<open>-g1\<close> are the same triple); hence over the radii \<open>0, \<dots>, M\<close> every triple of
  the L1-ball of radius \<open>M\<close> is generated exactly once and no other triple is generated.
\<close>

theorem radius_triples_each_once:
  "count_list (radius_triples N) (a, b, c) = (if \<bar>a\<bar> + \<bar>b\<bar> + \<bar>c\<bar> = N then 1 else 0) \<and>
   count_list (concat (map radius_triples [0..M])) (a, b, c) =
     (if \<bar>a\<bar> + \<bar>b\<bar> + \<bar>c\<bar> \<le> M then 1 else 0)"
  using count_radius_triples_l1 count_upto_radius by simp

theorem radius_triples_each_once_witness:
  "count_list (radius_triples 2) (0, 0, 2) = 1 \<and>
   count_list (radius_triples 2) (1, 0, 0) = 0 \<and>
   count_list (concat (map radius_triples [0..3])) (1, - 1, 0) = 1"
  using radius_triples_each_once [of 2 0 0 2 3] radius_triples_each_once [of 2 1 0 0 3]
    radius_triples_each_once [of 2 1 "- 1" 0 3]
  by simp

section \<open>Termination, the empty search and the count check\<close>

lemma calc_gvectors_cases:
  "(\<exists>tbl. calc_gvectors K B Ecut nplane Ecut1 thresh spinor nplanemax = Inr tbl) \<or>
   calc_gvectors K B Ecut nplane Ecut1 thresh spinor nplanemax = Inl StuckError \<or>
   calc_gvectors K B Ecut nplane Ecut1 thresh spinor nplanemax = Inl CountMismatch \<or>
   calc_gvectors K B Ecut nplane Ecut1 thresh spinor nplanemax = Inl ValueError"
  unfolding calc_gvectors_def Let_def by (simp split: prod.splits)

text \<open>
  C9.  The outer loop of \<open>calc_gvectors\<close> is entered at most \<open>nplanemax\<close> times (never for
  a negative \<open>nplanemax\<close>), whatever the other arguments are; the loop is a total function
  (its termination is proved with the measure \<open>nplanemax - N\<close>), and \<open>calc_gvectors\<close>
  ends by returning a table or by raising the "stuck" error, the count mismatch or the
  \<open>ValueError\<close> of an empty search.
\<close>

theorem calc_gvectors_bounded:
  assumes "enum_loop K B Ecut nplane spinor nplanemax 0 [] [] (replicate 10 True) =
             (stuck, igall, Eg, rounds)"
  shows "0 \<le> rounds \<and> rounds \<le> max 0 nplanemax \<and>
       ((\<exists>tbl. calc_gvectors K B Ecut nplane Ecut1 thresh spinor nplanemax = Inr tbl) \<or>
        calc_gvectors K B Ecut nplane Ecut1 thresh spinor nplanemax = Inl StuckError \<or>
        calc_gvectors K B Ecut nplane Ecut1 thresh spinor nplanemax = Inl CountMismatch \<or>
        calc_gvectors K B Ecut nplane Ecut1 thresh spinor nplanemax = Inl ValueError)"
proof -
  from enum_loop_rounds [OF assms] have "0 \<le> rounds" "rounds \<le> max 0 nplanemax"
    by simp_all
  with calc_gvectors_cases [of K B Ecut nplane Ecut1 thresh spinor nplanemax]
  show ?thesis by simp
qed

theorem calc_gvectors_bounded_witness:
  "enum_loop (0, 0, 0) ((1, 0, 0), (0, 1, 0), (0, 0, 1)) 4 (Some 5) False 40 0 [] []
       (replicate 10 True) =
     (False,
      [(0, 0, 0), (0, 0, - 1), (0, - 1, 0), (- 1, 0, 0), (1, 0, 0), (0, 1, 0), (0, 0, 1)],
      [0, 1000000000 / 262465831, 1000000000 / 262465831, 1000000000 / 262465831,
       1000000000 / 262465831, 1000000000 / 262465831, 1000000000 / 262465831],
      3) \<and>
   (0 :: int) \<le> 3 \<and> (3 :: int) \<le> max 0 40"
proof -
  have h: "enum_loop (0, 0, 0) ((1, 0, 0), (0, 1, 0), (0, 0, 1)) 4 (Some 5) False 40 0 [] []
       (replicate 10 True) =
     (False,
      [(0, 0, 0), (0, 0, - 1), (0, - 1, 0), (- 1, 0, 0), (1, 0, 0), (0, 1, 0), (0, 0, 1)],
      [0, 1000000000 / 262465831, 1000000000 / 262465831, 1000000000 / 262465831,
       1000000000 / 262465831, 1000000000 / 262465831, 1000000000 / 262465831],
      3)"
    by code_simp
  from calc_gvectors_bounded [OF h, of 0 "1 / 1000"] h show ?thesis by blast
qed

lemma found_at_nonpositive: "Ecut \<le> 0 \<Longrightarrow> found_at K B Ecut N = []"
  using etot_nonneg [of K B] by (auto simp: found_at_def filter_empty_conv not_less intro: order_trans)

lemma calc_gvectors_nothing_found:
  assumes "list_all (\<lambda>N. found_at K B Ecut N = []) [0..nplanemax - 1]"
  shows "calc_gvectors K B Ecut None Ecut1 thresh spinor nplanemax = Inl ValueError"
proof -
  from assms have "concat (map (found_at K B Ecut) [0..nplanemax - 1]) = []"
    by (simp add: list_all_iff)
  then show ?thesis
    by (simp add: calc_gvectors_def enum_loop_inf)
qed

text \<open>
  C10.  With \<open>nplane\<close> infinite, when no radius below \<open>nplanemax\<close> contributes a triple of
  energy below \<open>Ecut\<close> (in particular when \<open>Ecut \<le> 0\<close>), \<open>calc_gvectors\<close> raises (the
  \<open>ValueError\<close> of the maximum of an empty array) and returns no table.
\<close>

theorem calc_gvectors_empty_raises:
  "(list_all (\<lambda>N. found_at K B Ecut N = []) [0..nplanemax - 1] \<longrightarrow>
      calc_gvectors K B Ecut None Ecut1 thresh spinor nplanemax = Inl ValueError) \<and>
   (Ecut \<le> 0 \<longrightarrow> calc_gvectors K B Ecut None Ecut1 thresh spinor nplanemax = Inl ValueError)"
proof (intro conjI impI)
  assume "list_all (\<lambda>N. found_at K B Ecut N = []) [0..nplanemax - 1]"
  then show "calc_gvectors K B Ecut None Ecut1 thresh spinor nplanemax = Inl ValueError"
    by (rule calc_gvectors_nothing_found)
next
  assume "Ecut \<le> 0"
  then have "list_all (\<lambda>N. found_at K B Ecut N = []) [0..nplanemax - 1]"
    by (simp add: list_all_iff found_at_nonpositive)
  then show "calc_gvectors K B Ecut None Ecut1 thresh spinor nplanemax = Inl ValueError"
    by (rule calc_gvectors_nothing_found)
qed

theorem calc_gvectors_empty_raises_witness:
  "list_all (\<lambda>N. found_at (5, 0, 0) ((1, 0, 0), (0, 1, 0), (0, 0, 1)) 4 N = []) [0..2 - 1] \<and>
   calc_gvectors (5, 0, 0) ((1, 0, 0), (0, 1, 0), (0, 0, 1)) 4 None 0 (1 / 1000) True 2 =
     Inl ValueError \<and>
   (0 :: real) \<le> 0 \<and>
   calc_gvectors (0, 0, 0) ((1, 0, 0), (0, 1, 0), (0, 0, 1)) 0 None 0 (1 / 1000) True 5 =
     Inl ValueError"
proof -
  have h: "list_all (\<lambda>N. found_at (5, 0, 0) ((1, 0, 0), (0, 1, 0), (0, 0, 1)) 4 N = []) [0..2 - 1]"
    by code_simp
  from h calc_gvectors_empty_raises [of "(5, 0, 0)" "((1, 0, 0), (0, 1, 0), (0, 0, 1))" 4 2 0
      "1 / 1000" True]
    calc_gvectors_empty_raises [of "(0, 0, 0)" "((1, 0, 0), (0, 1, 0), (0, 0, 1))" 0 5 0
      "1 / 1000" True]
  show ?thesis by simp
qed



section \<open>Facts about the search of \<open>transformed_g\<close>\<close>

lemma search_done: "hi \<le> j \<Longrightarrow> search t ig j hi = Inr None"
  by (subst search.simps) simp

lemma search_step:
  "j < hi \<Longrightarrow> search t ig j hi =
     (case py_get ig j of
        Inl e \<Rightarrow> Inl e
      | Inr c \<Rightarrow> if t = gvec_of c then Inr (Some j) else search t ig (j + 1) hi)"
  by (subst search.simps) simp

lemma py_get_Inl: "py_get xs j = Inl e \<Longrightarrow> e = IndexError"
  by (auto simp: py_get_def Let_def split: if_splits)

lemma py_get_in_range:
  "0 \<le> j \<Longrightarrow> j < int (length xs) \<Longrightarrow> py_get xs j = Inr (xs ! nat j)"
  by (simp add: py_get_def Let_def)

lemma search_Inl: "search t ig j hi = Inl e \<Longrightarrow> e = IndexError"
proof (induction t ig j hi rule: search.induct)
  case (1 t ig j hi)
  show ?case
  proof (cases "hi \<le> j")
    case True
    with "1.prems" show ?thesis by (simp add: search_done)
  next
    case False
    show ?thesis
    proof (cases "py_get ig j")
      case (Inl e')
      with False "1.prems" show ?thesis by (simp add: search_step py_get_Inl)
    next
      case (Inr c)
      with False "1.prems" "1.IH" [OF False Inr] show ?thesis
        by (simp add: search_step split: if_splits)
    qed
  qed
qed

lemma search_Some:
  "search t ig j hi = Inr (Some v) \<Longrightarrow>
     j \<le> v \<and> v < hi \<and> (\<exists>c. py_get ig v = Inr c \<and> gvec_of c = t)"
proof (induction t ig j hi rule: search.induct)
  case (1 t ig j hi)
  show ?case
  proof (cases "hi \<le> j")
    case True
    with "1.prems" show ?thesis by (simp add: search_done)
  next
    case False
    show ?thesis
    proof (cases "py_get ig j")
      case (Inl e')
      with False "1.prems" show ?thesis by (simp add: search_step)
    next
      case (Inr c)
      show ?thesis
      proof (cases "t = gvec_of c")
        case True
        with False Inr "1.prems" show ?thesis by (simp add: search_step)
      next
        case ne: False
        with False Inr "1.prems" have "search t ig (j + 1) hi = Inr (Some v)"
          by (simp add: search_step)
        from "1.IH" [OF False Inr ne this] show ?thesis by auto
      qed
    qed
  qed
qed

lemma search_None:
  "search t ig j hi = Inr None \<Longrightarrow> j \<le> k \<Longrightarrow> k < hi \<Longrightarrow>
     \<exists>c. py_get ig k = Inr c \<and> gvec_of c \<noteq> t"
proof (induction t ig j hi rule: search.induct)
  case (1 t ig j hi)
  from "1.prems" have lt: "\<not> hi \<le> j" by simp
  show ?case
  proof (cases "py_get ig j")
    case (Inl e')
    with lt "1.prems" show ?thesis by (simp add: search_step)
  next
    case (Inr c)
    show ?thesis
    proof (cases "t = gvec_of c")
      case True
      with lt Inr "1.prems" show ?thesis by (simp add: search_step)
    next
      case ne: False
      with lt Inr "1.prems" have rest: "search t ig (j + 1) hi = Inr None"
        by (simp add: search_step)
      show ?thesis
      proof (cases "k = j")
        case True
        with Inr ne show ?thesis by auto
      next
        case False
        with "1.prems" have "j + 1 \<le> k" by simp
        from "1.IH" [OF lt Inr ne rest this "1.prems"(3)] show ?thesis .
      qed
    qed
  qed
qed

lemma search_in_range:
  "0 \<le> j \<Longrightarrow> hi \<le> int (length ig) \<Longrightarrow> \<exists>r. search t ig j hi = Inr r"
proof (induction t ig j hi rule: search.induct)
  case (1 t ig j hi)
  show ?case
  proof (cases "hi \<le> j")
    case True
    then show ?thesis by (simp add: search_done)
  next
    case False
    with "1.prems" have g: "py_get ig j = Inr (ig ! nat j)"
      by (simp add: py_get_in_range)
    show ?thesis
    proof (cases "t = gvec_of (ig ! nat j)")
      case True
      with False g show ?thesis by (simp add: search_step)
    next
      case ne: False
      from "1.IH" [OF False g ne] "1.prems" have "\<exists>r. search t ig (j + 1) hi = Inr r"
        by simp
      with False g ne show ?thesis by (simp add: search_step)
    qed
  qed
qed

lemma search_first:
  "0 \<le> j \<Longrightarrow> j \<le> i \<Longrightarrow> i < hi \<Longrightarrow> hi \<le> int (length ig) \<Longrightarrow>
   gvec_of (ig ! nat i) = t \<Longrightarrow>
   (\<And>k. j \<le> k \<Longrightarrow> k < i \<Longrightarrow> gvec_of (ig ! nat k) \<noteq> t) \<Longrightarrow>
   search t ig j hi = Inr (Some i)"
proof (induction t ig j hi rule: search.induct)
  case (1 t ig j hi)
  from "1.prems" have lt: "\<not> hi \<le> j" by simp
  from "1.prems" have g: "py_get ig j = Inr (ig ! nat j)"
    by (simp add: py_get_in_range)
  show ?case
  proof (cases "j = i")
    case True
    with lt g "1.prems" show ?thesis by (simp add: search_step)
  next
    case False
    with "1.prems" have ne: "t \<noteq> gvec_of (ig ! nat j)" by (metis less_le order_refl)
    have "search t ig (j + 1) hi = Inr (Some i)"
      using False "1.prems" by (intro "1.IH" [OF lt g ne]) auto
    with lt g ne show ?thesis by (simp add: search_step)
  qed
qed

lemma rot_entries_Inl:
  "rot_entries ig ps = Inl e \<Longrightarrow> e = IndexError \<or> e = NoPairError"
proof (induction ps arbitrary: e)
  case Nil
  then show ?case by simp
next
  case (Cons p ps)
  obtain t c where p: "p = (t, c)" by (cases p)
  show ?case
  proof (cases "search t ig (shell_start c) (shell_end c)")
    case (Inl e')
    with Cons.prems p show ?thesis by (simp add: search_Inl)
  next
    case (Inr r)
    with Cons.prems p Cons.IH show ?thesis
      by (auto simp: Let_def split: if_splits sum.splits)
  qed
qed

lemma rot_entries_Inr:
  "rot_entries ig ps = Inr vs \<Longrightarrow> list_all2 (pair_ok ig) ps vs"
proof (induction ps arbitrary: vs)
  case Nil
  then show ?case by simp
next
  case (Cons p ps)
  obtain t c where p: "p = (t, c)" by (cases p)
  from Cons.prems p obtain r where r: "search t ig (shell_start c) (shell_end c) = Inr r"
    by (cases "search t ig (shell_start c) (shell_end c)") auto
  from Cons.prems p r obtain v where v: "r = Some v"
    by (cases r) (auto simp: Let_def)
  from Cons.prems p r v obtain vs' where vs': "rot_entries ig ps = Inr vs'" "vs = v # vs'"
    by (auto simp: Let_def split: if_splits sum.splits)
  from search_Some [OF r [unfolded v]] p have "pair_ok ig p v"
    by (simp add: pair_ok_def)
  with Cons.IH [OF vs'(1)] vs'(2) show ?case by simp
qed

lemma pair_ok_distinct:
  "list_all2 (pair_ok ig) ps vs \<Longrightarrow> distinct (map fst ps) \<Longrightarrow> distinct vs"
proof (induction rule: list_all2_induct)
  case Nil
  then show ?case by simp
next
  case (Cons p ps v vs)
  have "v \<notin> set vs"
  proof
    assume "v \<in> set vs"
    then obtain i where i: "i < length vs" "vs ! i = v"
      by (auto simp: in_set_conv_nth)
    with Cons.hyps(2) have "pair_ok ig (ps ! i) v" "i < length ps"
      by (auto simp: list_all2_conv_all_nth)
    with Cons.hyps(1) have "fst (ps ! i) = fst p"
      by (auto simp: pair_ok_def)
    with \<open>i < length ps\<close> have "fst p \<in> set (map fst ps)"
      by (metis length_map nth_map nth_mem)
    with Cons.prems show False by simp
  qed
  with Cons show ?case by simp
qed

lemma rot_entries_no_pair:
  assumes "\<forall>p \<in> set ps. 0 \<le> shell_start (snd p) \<and> shell_end (snd p) \<le> int (length ig)"
    and "\<exists>p \<in> set ps. \<forall>k. shell_start (snd p) \<le> k \<and> k < shell_end (snd p)
            \<longrightarrow> gvec_of (ig ! nat k) \<noteq> fst p"
  shows "rot_entries ig ps = Inl NoPairError"
  using assms
proof (induction ps)
  case Nil
  then show ?case by simp
next
  case (Cons p ps)
  obtain t c where p: "p = (t, c)" by (cases p)
  from Cons.prems(1) p have wf: "0 \<le> shell_start c" "shell_end c \<le> int (length ig)"
    by auto
  from search_in_range [OF wf] obtain r where
    r: "search t ig (shell_start c) (shell_end c) = Inr r" by blast
  show ?case
  proof (cases r)
    case None
    with r p show ?thesis by simp
  next
    case (Some v)
    from search_Some [OF r [unfolded Some]] obtain c' where
      v: "shell_start c \<le> v" "v < shell_end c" "py_get ig v = Inr c'" "gvec_of c' = t"
      by blast
    with wf have "c' = ig ! nat v" by (simp add: py_get_in_range)
    with v have hit: "gvec_of (ig ! nat v) = t" by simp
    with v p Cons.prems(2) have "\<exists>p \<in> set ps. \<forall>k. shell_start (snd p) \<le> k \<and> k < shell_end (snd p)
            \<longrightarrow> gvec_of (ig ! nat k) \<noteq> fst p"
      by auto
    with Cons.IH Cons.prems(1) have "rot_entries ig ps = Inl NoPairError" by simp
    with r Some p v wf show ?thesis by (simp add: Let_def)
  qed
qed

lemma rot_entries_identity:
  assumes "ig = pre @ rest" and "distinct (map gvec_of ig)"
    and "\<forall>i < length ig. 0 \<le> shell_start (ig ! i) \<and> shell_start (ig ! i) \<le> int i \<and>
            int i < shell_end (ig ! i) \<and> shell_end (ig ! i) \<le> int (length ig)"
  shows "rot_entries ig (map (\<lambda>c. (gvec_of c, c)) rest) = Inr (map int [length pre..<length ig])"
  using assms
proof (induction rest arbitrary: pre)
  case Nil
  then show ?case by simp
next
  case (Cons c rest)
  let ?i = "length pre"
  from Cons.prems(1) have i: "?i < length ig" "ig ! ?i = c" by simp_all
  with Cons.prems(3) have b: "0 \<le> shell_start c" "shell_start c \<le> int ?i"
    "int ?i < shell_end c" "shell_end c \<le> int (length ig)"
    by auto
  have "search (gvec_of c) ig (shell_start c) (shell_end c) = Inr (Some (int ?i))"
  proof (rule search_first [OF b(1) b(2) b(3) b(4)])
    show "gvec_of (ig ! nat (int ?i)) = gvec_of c" using i by simp
  next
    fix k assume k: "shell_start c \<le> k" "k < int ?i"
    with b have "nat k < length ig" "nat k \<noteq> ?i" using i by auto
    with Cons.prems(2) i show "gvec_of (ig ! nat k) \<noteq> gvec_of c"
      by (metis distinct_conv_nth length_map nth_map)
  qed
  moreover have "rot_entries ig (map (\<lambda>c. (gvec_of c, c)) rest) =
      Inr (map int [length (pre @ [c])..<length ig])"
    using Cons.prems by (intro Cons.IH) auto
  ultimately show ?case using i by (simp add: Let_def upt_conv_Cons)
qed

section \<open>The k-point test of \<open>transformed_g\<close>\<close>

lemma transformed_g_unfold:
  "inv3 A = Inr Ainv \<Longrightarrow>
   transformed_g kpt ig RecLattice A =
     (if \<not> isclose3 (round3 (kpt_shift Ainv kpt)) (kpt_shift Ainv kpt) then Inl NotSymmetryError
      else rot_entries ig (zip (igTr_of (transpose3 Ainv) (round3 (kpt_shift Ainv kpt)) ig) ig))"
  by (simp add: transformed_g_def kpt_shift_def Let_def)

lemma inv3_minus_identity:
  "inv3 ((- 1, 0, 0), (0, - 1, 0), (0, 0, - 1)) = Inr ((- 1, 0, 0), (0, - 1, 0), (0, 0, - 1))"
  by (simp add: Let_def)

lemma transformed_g_iff_not_close:
  assumes "inv3 A = Inr Ainv"
  shows "transformed_g kpt ig RecLattice A = Inl NotSymmetryError \<longleftrightarrow>
           \<not> isclose3 (round3 (kpt_shift Ainv kpt)) (kpt_shift Ainv kpt)"
proof (cases "isclose3 (round3 (kpt_shift Ainv kpt)) (kpt_shift Ainv kpt)")
  case True
  have "rot_entries ig (zip (igTr_of (transpose3 Ainv) (round3 (kpt_shift Ainv kpt)) ig) ig)
          \<noteq> Inl NotSymmetryError"
    using rot_entries_Inl by fastforce
  with True assms show ?thesis by (simp add: transformed_g_unfold)
next
  case False
  with assms show ?thesis by (simp add: transformed_g_unfold)
qed

lemma half_shift: "kpt_shift ((- 1, 0, 0), (0, - 1, 0), (0, 0, - 1)) (1 / 2, 0, 0) = (- 1, 0, 0)"
  by (simp add: kpt_shift_def)

lemma quarter_shift:
  "kpt_shift ((- 1, 0, 0), (0, - 1, 0), (0, 0, - 1)) (1 / 4, 0, 0) = (- 1 / 2, 0, 0)"
  by (simp add: kpt_shift_def)

lemma np_round_of_int [simp]: "np_round (of_int a) = a"
  by (simp add: np_round_def Let_def)

lemma np_round_zero [simp]: "np_round 0 = 0"
  using np_round_of_int [of 0] by simp

lemma np_round_minus_one [simp]: "np_round (- 1) = - 1"
  using np_round_of_int [of "- 1"] by simp

lemma np_round_minus_half: "np_round (- (1 / 2)) = 0"
proof -
  have "\<lfloor>- (1 / 2) :: real\<rfloor> = - 1" by linarith
  then show ?thesis by (simp add: np_round_def Let_def)
qed

text \<open>
  C7 (amended).  For an invertible \<open>A\<close> and a k-point whose shift \<open>K' - K\<close> rounds to
  integers of the 64-bit range (so that line 211 stores the rounding itself),
  \<open>transformed_g\<close> raises \<open>NotSymmetryError\<close> exactly when \<open>K' - K\<close> is not close
  (\<open>np.isclose\<close>) to its rounding.  The lattice plays no part in the test.  For
  \<open>K = (1/2, 0, 0)\<close> and the inversion, \<open>K' - K = (-1, 0, 0)\<close> is an integer vector and the
  error is not raised, whatever the table and the lattice; for \<open>K = (1/4, 0, 0)\<close> it is.
\<close>

theorem transformed_g_not_symmetry:
  "(inv3 A = Inr Ainv \<and> fits_int64 (round3 (kpt_shift Ainv kpt)) \<longrightarrow>
      (transformed_g kpt ig RecLattice A = Inl NotSymmetryError \<longleftrightarrow>
         \<not> isclose3 (round3 (kpt_shift Ainv kpt)) (kpt_shift Ainv kpt))) \<and>
   transformed_g (1 / 2, 0, 0) ig RecLattice ((- 1, 0, 0), (0, - 1, 0), (0, 0, - 1))
      \<noteq> Inl NotSymmetryError \<and>
   transformed_g (1 / 4, 0, 0) ig RecLattice ((- 1, 0, 0), (0, - 1, 0), (0, 0, - 1))
      = Inl NotSymmetryError"
proof (intro conjI impI)
  assume "inv3 A = Inr Ainv \<and> fits_int64 (round3 (kpt_shift Ainv kpt))"
  then have "inv3 A = Inr Ainv" ..
  then show "transformed_g kpt ig RecLattice A = Inl NotSymmetryError \<longleftrightarrow>
         \<not> isclose3 (round3 (kpt_shift Ainv kpt)) (kpt_shift Ainv kpt)"
    by (rule transformed_g_iff_not_close)
next
  show "transformed_g (1 / 2, 0, 0) ig RecLattice ((- 1, 0, 0), (0, - 1, 0), (0, 0, - 1))
      \<noteq> Inl NotSymmetryError"
    by (simp add: transformed_g_iff_not_close [OF inv3_minus_identity] half_shift isclose_def)
next
  show "transformed_g (1 / 4, 0, 0) ig RecLattice ((- 1, 0, 0), (0, - 1, 0), (0, 0, - 1))
      = Inl NotSymmetryError"
    by (simp add: transformed_g_iff_not_close [OF inv3_minus_identity] quarter_shift
        np_round_minus_half isclose_def)
qed

theorem transformed_g_not_symmetry_witness:
  "inv3 ((- 1, 0, 0), (0, - 1, 0), (0, 0, - 1)) = Inr ((- 1, 0, 0), (0, - 1, 0), (0, 0, - 1)) \<and>
   fits_int64 (round3 (kpt_shift ((- 1, 0, 0), (0, - 1, 0), (0, 0, - 1)) (1 / 2, 0, 0))) \<and>
   fits_int64 (round3 (kpt_shift ((- 1, 0, 0), (0, - 1, 0), (0, 0, - 1)) (1 / 4, 0, 0))) \<and>
   isclose3 (round3 (kpt_shift ((- 1, 0, 0), (0, - 1, 0), (0, 0, - 1)) (1 / 2, 0, 0)))
     (kpt_shift ((- 1, 0, 0), (0, - 1, 0), (0, 0, - 1)) (1 / 2, 0, 0)) \<and>
   transformed_g (1 / 2, 0, 0)
     [\<lparr>g1 = 0, g2 = 0, g3 = 0, ord = 0, shell_start = 0, shell_end = 2\<rparr>,
      \<lparr>g1 = - 1, g2 = 0, g3 = 0, ord = 1, shell_start = 0, shell_end = 2\<rparr>]
     ((1, 0, 0), (0, 1, 0), (0, 0, 1)) ((- 1, 0, 0), (0, - 1, 0), (0, 0, - 1))
     \<noteq> Inl NotSymmetryError \<and>
   \<not> isclose3 (round3 (kpt_shift ((- 1, 0, 0), (0, - 1, 0), (0, 0, - 1)) (1 / 4, 0, 0)))
     (kpt_shift ((- 1, 0, 0), (0, - 1, 0), (0, 0, - 1)) (1 / 4, 0, 0)) \<and>
   transformed_g (1 / 4, 0, 0)
     [\<lparr>g1 = 0, g2 = 0, g3 = 0, ord = 0, shell_start = 0, shell_end = 1\<rparr>]
     ((1, 0, 0), (0, 1, 0), (0, 0, 1)) ((- 1, 0, 0), (0, - 1, 0), (0, 0, - 1))
     = Inl NotSymmetryError"
proof -
  have c1: "isclose3 (round3 (kpt_shift ((- 1, 0, 0), (0, - 1, 0), (0, 0, - 1)) (1 / 2, 0, 0)))
     (kpt_shift ((- 1, 0, 0), (0, - 1, 0), (0, 0, - 1)) (1 / 2, 0, 0))"
    by (simp add: half_shift isclose_def)
  have c2: "\<not> isclose3 (round3 (kpt_shift ((- 1, 0, 0), (0, - 1, 0), (0, 0, - 1)) (1 / 4, 0, 0)))
     (kpt_shift ((- 1, 0, 0), (0, - 1, 0), (0, 0, - 1)) (1 / 4, 0, 0))"
    by (simp add: quarter_shift np_round_minus_half isclose_def)
  have f1: "fits_int64 (round3 (kpt_shift ((- 1, 0, 0), (0, - 1, 0), (0, 0, - 1)) (1 / 2, 0, 0)))"
    by (simp add: half_shift)
  have f2: "fits_int64 (round3 (kpt_shift ((- 1, 0, 0), (0, - 1, 0), (0, 0, - 1)) (1 / 4, 0, 0)))"
    by (simp add: quarter_shift np_round_minus_half)
  from c1 c2 f1 f2 inv3_minus_identity
    transformed_g_not_symmetry [of "((- 1, 0, 0), (0, - 1, 0), (0, 0, - 1))"
      "((- 1, 0, 0), (0, - 1, 0), (0, 0, - 1))" "(1 / 2, 0, 0)"
      "[\<lparr>g1 = 0, g2 = 0, g3 = 0, ord = 0, shell_start = 0, shell_end = 2\<rparr>,
        \<lparr>g1 = - 1, g2 = 0, g3 = 0, ord = 1, shell_start = 0, shell_end = 2\<rparr>]"
      "((1, 0, 0), (0, 1, 0), (0, 0, 1))"]
    transformed_g_not_symmetry [of "((- 1, 0, 0), (0, - 1, 0), (0, 0, - 1))"
      "((- 1, 0, 0), (0, - 1, 0), (0, 0, - 1))" "(1 / 4, 0, 0)"
      "[\<lparr>g1 = 0, g2 = 0, g3 = 0, ord = 0, shell_start = 0, shell_end = 1\<rparr>]"
      "((1, 0, 0), (0, 1, 0), (0, 0, 1))"]
  show ?thesis by blast
qed

text \<open>
  The scenario of C7 as stated: \<open>K = (1/2, 0, 0)\<close> and the inversion, on a lattice whose
  first basis vector is \<open>(3/10, 1/7, 0)\<close>, so that \<open>2K\<close> is this vector in cartesian
  coordinates and not an integer vector.  The table holds the two G-vectors of lowest (and
  equal) energy for this k-point, in one shell.  No \<open>NotSymmetryError\<close>: the test reads
  the direct coordinates only, where \<open>K' - K = (-1, 0, 0)\<close>, and the two G-vectors are
  exchanged.
\<close>

theorem half_k_inversion_counterexample:
  "vecmat (2 * (1 / 2), 0, 0) ((3 / 10, 1 / 7, 0), (0, 1, 0), (0, 0, 1)) = (3 / 10, 1 / 7, 0) \<and>
   etot (1 / 2, 0, 0) ((3 / 10, 1 / 7, 0), (0, 1, 0), (0, 0, 1)) (0, 0, 0) =
     etot (1 / 2, 0, 0) ((3 / 10, 1 / 7, 0), (0, 1, 0), (0, 0, 1)) (- 1, 0, 0) \<and>
   transformed_g (1 / 2, 0, 0)
     [\<lparr>g1 = 0, g2 = 0, g3 = 0, ord = 0, shell_start = 0, shell_end = 2\<rparr>,
      \<lparr>g1 = - 1, g2 = 0, g3 = 0, ord = 1, shell_start = 0, shell_end = 2\<rparr>]
     ((3 / 10, 1 / 7, 0), (0, 1, 0), (0, 0, 1)) ((- 1, 0, 0), (0, - 1, 0), (0, 0, - 1))
     = Inr [1, 0]"
  by code_simp

section \<open>The result of \<open>transformed_g\<close>\<close>

lemma length_igTr_of [simp]: "length (igTr_of B d ig) = length ig"
  by (simp add: igTr_of_def)

lemma transformed_g_success:
  assumes inv: "inv3 A = Inr Ainv"
    and res: "transformed_g kpt ig RecLattice A = Inr rotind"
  shows "length rotind = length ig"
    and "\<And>i. i < length ig \<Longrightarrow>
           pair_ok ig (igTr_of (transpose3 Ainv) (round3 (kpt_shift Ainv kpt)) ig ! i, ig ! i)
             (rotind ! i)"
    and "distinct (igTr_of (transpose3 Ainv) (round3 (kpt_shift Ainv kpt)) ig) \<Longrightarrow>
           distinct rotind"
proof -
  let ?T = "igTr_of (transpose3 Ainv) (round3 (kpt_shift Ainv kpt)) ig"
  from res inv have "rot_entries ig (zip ?T ig) = Inr rotind"
    by (simp add: transformed_g_unfold split: if_splits)
  then have all2: "list_all2 (pair_ok ig) (zip ?T ig) rotind"
    by (rule rot_entries_Inr)
  then show len: "length rotind = length ig"
    by (auto dest: list_all2_lengthD)
  show "pair_ok ig (?T ! i, ig ! i) (rotind ! i)" if "i < length ig" for i
    using all2 that by (auto simp: list_all2_conv_all_nth)
  show "distinct rotind" if "distinct ?T"
  proof (rule pair_ok_distinct [OF all2])
    from that show "distinct (map fst (zip ?T ig))" by simp
  qed
qed

lemma transformed_g_no_pair:
  assumes inv: "inv3 A = Inr Ainv"
    and close: "isclose3 (round3 (kpt_shift Ainv kpt)) (kpt_shift Ainv kpt)"
    and wf: "\<forall>c \<in> set ig. 0 \<le> shell_start c \<and> shell_end c \<le> int (length ig)"
    and miss: "i < length ig"
      "\<forall>k. shell_start (ig ! i) \<le> k \<and> k < shell_end (ig ! i) \<longrightarrow>
         gvec_of (ig ! nat k) \<noteq> igTr_of (transpose3 Ainv) (round3 (kpt_shift Ainv kpt)) ig ! i"
  shows "transformed_g kpt ig RecLattice A = Inl NoPairError"
proof -
  let ?T = "igTr_of (transpose3 Ainv) (round3 (kpt_shift Ainv kpt)) ig"
  have "rot_entries ig (zip ?T ig) = Inl NoPairError"
  proof (rule rot_entries_no_pair)
    show "\<forall>p \<in> set (zip ?T ig). 0 \<le> shell_start (snd p) \<and> shell_end (snd p) \<le> int (length ig)"
      using wf by (auto dest: set_zip_rightD)
    from miss have "(?T ! i, ig ! i) \<in> set (zip ?T ig)"
      by (auto simp: set_zip)
    with miss(2) show "\<exists>p \<in> set (zip ?T ig). \<forall>k. shell_start (snd p) \<le> k \<and> k < shell_end (snd p)
            \<longrightarrow> gvec_of (ig ! nat k) \<noteq> fst p"
      by (intro bexI [where x = "(?T ! i, ig ! i)"]) auto
  qed
  with inv close show ?thesis by (simp add: transformed_g_unfold)
qed

text \<open>
  C2 (amended).  For a rotation that passes the k-point test: when \<open>transformed_g\<close> returns
  \<open>rotind\<close>, it has the length of the table, and every \<open>rotind[i]\<close> is an index inside the
  shell of \<open>i\<close> whose column carries the rounded image of G-vector \<open>i\<close>; \<open>rotind\<close> is
  injective whenever these rounded images are pairwise distinct.  When the shell bounds of
  the table lie inside the table and some \<open>i\<close> has no such index, \<open>transformed_g\<close> raises
  its \<open>RuntimeError\<close>; no entry is ever left at a default.
\<close>

theorem transformed_g_pairs:
  assumes "inv3 A = Inr Ainv"
    and "isclose3 (round3 (kpt_shift Ainv kpt)) (kpt_shift Ainv kpt)"
  shows "(transformed_g kpt ig RecLattice A = Inr rotind \<longrightarrow>
            length rotind = length ig \<and>
            (\<forall>i < length ig.
               pair_ok ig (igTr_of (transpose3 Ainv) (round3 (kpt_shift Ainv kpt)) ig ! i, ig ! i)
                 (rotind ! i)) \<and>
            (distinct (igTr_of (transpose3 Ainv) (round3 (kpt_shift Ainv kpt)) ig) \<longrightarrow>
               distinct rotind)) \<and>
         ((\<forall>c \<in> set ig. 0 \<le> shell_start c \<and> shell_end c \<le> int (length ig)) \<and>
          (\<exists>i < length ig. \<forall>k. shell_start (ig ! i) \<le> k \<and> k < shell_end (ig ! i) \<longrightarrow>
             gvec_of (ig ! nat k) \<noteq>
               igTr_of (transpose3 Ainv) (round3 (kpt_shift Ainv kpt)) ig ! i) \<longrightarrow>
            transformed_g kpt ig RecLattice A = Inl NoPairError \<and> is_RuntimeError NoPairError)"
proof (intro conjI impI allI)
  assume r: "transformed_g kpt ig RecLattice A = Inr rotind"
  from transformed_g_success(1) [OF assms(1) r] show "length rotind = length ig" .
  show "pair_ok ig (igTr_of (transpose3 Ainv) (round3 (kpt_shift Ainv kpt)) ig ! i, ig ! i)
          (rotind ! i)" if "i < length ig" for i
    using transformed_g_success(2) [OF assms(1) r that] .
  show "distinct rotind"
    if "distinct (igTr_of (transpose3 Ainv) (round3 (kpt_shift Ainv kpt)) ig)"
    using transformed_g_success(3) [OF assms(1) r that] .
next
  assume h: "(\<forall>c \<in> set ig. 0 \<le> shell_start c \<and> shell_end c \<le> int (length ig)) \<and>
          (\<exists>i < length ig. \<forall>k. shell_start (ig ! i) \<le> k \<and> k < shell_end (ig ! i) \<longrightarrow>
             gvec_of (ig ! nat k) \<noteq>
               igTr_of (transpose3 Ainv) (round3 (kpt_shift Ainv kpt)) ig ! i)"
  then obtain i where i: "i < length ig"
    "\<forall>k. shell_start (ig ! i) \<le> k \<and> k < shell_end (ig ! i) \<longrightarrow>
             gvec_of (ig ! nat k) \<noteq>
               igTr_of (transpose3 Ainv) (round3 (kpt_shift Ainv kpt)) ig ! i"
    by blast
  from h have wf: "\<forall>c \<in> set ig. 0 \<le> shell_start c \<and> shell_end c \<le> int (length ig)" by blast
  show "transformed_g kpt ig RecLattice A = Inl NoPairError"
    by (rule transformed_g_no_pair [OF assms wf i])
  show "is_RuntimeError NoPairError" by simp
qed

theorem transformed_g_pairs_witness:
  "inv3 ((- 1, 0, 0), (0, - 1, 0), (0, 0, - 1)) = Inr ((- 1, 0, 0), (0, - 1, 0), (0, 0, - 1)) \<and>
   isclose3 (round3 (kpt_shift ((- 1, 0, 0), (0, - 1, 0), (0, 0, - 1)) (1 / 2, 0, 0))) (kpt_shift ((- 1, 0, 0), (0, - 1, 0), (0, 0, - 1)) (1 / 2, 0, 0)) \<and>
   transformed_g (1 / 2, 0, 0)
     [\<lparr>g1 = 0, g2 = 0, g3 = 0, ord = 0, shell_start = 0, shell_end = 2\<rparr>,
      \<lparr>g1 = - 1, g2 = 0, g3 = 0, ord = 1, shell_start = 0, shell_end = 2\<rparr>]
     ((1, 0, 0), (0, 1, 0), (0, 0, 1)) ((- 1, 0, 0), (0, - 1, 0), (0, 0, - 1)) = Inr [1, 0] \<and>
   length [1, 0 :: int] = length
     [\<lparr>g1 = 0, g2 = 0, g3 = 0, ord = 0, shell_start = 0, shell_end = 2\<rparr>,
      \<lparr>g1 = - 1, g2 = 0, g3 = 0, ord = 1, shell_start = 0, shell_end = 2\<rparr>] \<and>
   distinct [1, 0 :: int] \<and>
   transformed_g (1 / 2, 0, 0)
     [\<lparr>g1 = 0, g2 = 0, g3 = 0, ord = 0, shell_start = 0, shell_end = 1\<rparr>]
     ((1, 0, 0), (0, 1, 0), (0, 0, 1)) ((- 1, 0, 0), (0, - 1, 0), (0, 0, - 1)) = Inl NoPairError"
proof -
  have c: "isclose3 (round3 (kpt_shift ((- 1, 0, 0), (0, - 1, 0), (0, 0, - 1)) (1 / 2, 0, 0))) (kpt_shift ((- 1, 0, 0), (0, - 1, 0), (0, 0, - 1)) (1 / 2, 0, 0))"
    by (simp add: half_shift isclose_def)
  have r: "transformed_g (1 / 2, 0, 0)
     [\<lparr>g1 = 0, g2 = 0, g3 = 0, ord = 0, shell_start = 0, shell_end = 2\<rparr>,
      \<lparr>g1 = - 1, g2 = 0, g3 = 0, ord = 1, shell_start = 0, shell_end = 2\<rparr>]
     ((1, 0, 0), (0, 1, 0), (0, 0, 1)) ((- 1, 0, 0), (0, - 1, 0), (0, 0, - 1)) = Inr [1, 0]"
    by code_simp
  have t: "igTr_of (transpose3 ((- 1, 0, 0), (0, - 1, 0), (0, 0, - 1))) (round3 (kpt_shift ((- 1, 0, 0), (0, - 1, 0), (0, 0, - 1)) (1 / 2, 0, 0)))
     [\<lparr>g1 = 0, g2 = 0, g3 = 0, ord = 0, shell_start = 0, shell_end = 1\<rparr>] = [(- 1, 0, 0)]"
    by code_simp
  have miss: "(\<forall>c \<in> set [\<lparr>g1 = 0, g2 = 0, g3 = 0, ord = 0, shell_start = 0, shell_end = 1\<rparr>].
        0 \<le> shell_start c \<and> shell_end c \<le> int (length [\<lparr>g1 = 0, g2 = 0, g3 = 0, ord = 0, shell_start = 0, shell_end = 1\<rparr>])) \<and>
     (\<exists>i < length [\<lparr>g1 = 0, g2 = 0, g3 = 0, ord = 0, shell_start = 0, shell_end = 1\<rparr>].
        \<forall>k. shell_start ([\<lparr>g1 = 0, g2 = 0, g3 = 0, ord = 0, shell_start = 0, shell_end = 1\<rparr>] ! i) \<le> k \<and> k < shell_end ([\<lparr>g1 = 0, g2 = 0, g3 = 0, ord = 0, shell_start = 0, shell_end = 1\<rparr>] ! i) \<longrightarrow>
          gvec_of ([\<lparr>g1 = 0, g2 = 0, g3 = 0, ord = 0, shell_start = 0, shell_end = 1\<rparr>] ! nat k) \<noteq>
            igTr_of (transpose3 ((- 1, 0, 0), (0, - 1, 0), (0, 0, - 1))) (round3 (kpt_shift ((- 1, 0, 0), (0, - 1, 0), (0, 0, - 1)) (1 / 2, 0, 0))) [\<lparr>g1 = 0, g2 = 0, g3 = 0, ord = 0, shell_start = 0, shell_end = 1\<rparr>] ! i)"
    unfolding t by (simp add: gvec_of_def)
  from transformed_g_pairs [OF inv3_minus_identity c, of
      "[\<lparr>g1 = 0, g2 = 0, g3 = 0, ord = 0, shell_start = 0, shell_end = 2\<rparr>,
      \<lparr>g1 = - 1, g2 = 0, g3 = 0, ord = 1, shell_start = 0, shell_end = 2\<rparr>]"
      "((1, 0, 0), (0, 1, 0), (0, 0, 1))" "[1, 0]"] r
  have a: "length [1, 0 :: int] = length
     [\<lparr>g1 = 0, g2 = 0, g3 = 0, ord = 0, shell_start = 0, shell_end = 2\<rparr>,
      \<lparr>g1 = - 1, g2 = 0, g3 = 0, ord = 1, shell_start = 0, shell_end = 2\<rparr>]"
    by blast
  from transformed_g_pairs [OF inv3_minus_identity c, of
      "[\<lparr>g1 = 0, g2 = 0, g3 = 0, ord = 0, shell_start = 0, shell_end = 1\<rparr>]"
      "((1, 0, 0), (0, 1, 0), (0, 0, 1))" "[]"] miss
  have b: "transformed_g (1 / 2, 0, 0)
     [\<lparr>g1 = 0, g2 = 0, g3 = 0, ord = 0, shell_start = 0, shell_end = 1\<rparr>]
     ((1, 0, 0), (0, 1, 0), (0, 0, 1)) ((- 1, 0, 0), (0, - 1, 0), (0, 0, - 1)) = Inl NoPairError"
    by blast
  from inv3_minus_identity c r a b show ?thesis by simp
qed

text \<open>
  Injectivity as C2 states it fails: with the identity on a table that lists a G-vector
  twice in one shell, and with \<open>A = 2I\<close> (which passes the k-point test at \<open>K = 0\<close>) on a
  table made by \<open>calc_gvectors\<close>, where the images \<open>G / 2\<close> are all rounded to zero.
\<close>

theorem rotind_not_injective_counterexample:
  "transformed_g (0, 0, 0)
     [\<lparr>g1 = 0, g2 = 0, g3 = 0, ord = 0, shell_start = 0, shell_end = 2\<rparr>,
      \<lparr>g1 = 0, g2 = 0, g3 = 0, ord = 1, shell_start = 0, shell_end = 2\<rparr>]
     ((1, 0, 0), (0, 1, 0), (0, 0, 1)) ((1, 0, 0), (0, 1, 0), (0, 0, 1)) = Inr [0, 0] \<and>
   \<not> distinct [0, 0 :: int] \<and>
   calc_gvectors (0, 0, 0) ((1, 0, 0), (0, 1, 0), (0, 0, 1)) 4 None 0 100 False 2 =
     Inr [\<lparr>g1 = 0, g2 = 0, g3 = 0, ord = 0, shell_start = 0, shell_end = 7\<rparr>,
      \<lparr>g1 = - 1, g2 = 0, g3 = 0, ord = 1, shell_start = 0, shell_end = 7\<rparr>,
      \<lparr>g1 = 1, g2 = 0, g3 = 0, ord = 2, shell_start = 0, shell_end = 7\<rparr>,
      \<lparr>g1 = 0, g2 = - 1, g3 = 0, ord = 3, shell_start = 0, shell_end = 7\<rparr>,
      \<lparr>g1 = 0, g2 = 1, g3 = 0, ord = 4, shell_start = 0, shell_end = 7\<rparr>,
      \<lparr>g1 = 0, g2 = 0, g3 = - 1, ord = 5, shell_start = 0, shell_end = 7\<rparr>,
      \<lparr>g1 = 0, g2 = 0, g3 = 1, ord = 6, shell_start = 0, shell_end = 7\<rparr>] \<and>
   transformed_g (0, 0, 0)
     [\<lparr>g1 = 0, g2 = 0, g3 = 0, ord = 0, shell_start = 0, shell_end = 7\<rparr>,
      \<lparr>g1 = - 1, g2 = 0, g3 = 0, ord = 1, shell_start = 0, shell_end = 7\<rparr>,
      \<lparr>g1 = 1, g2 = 0, g3 = 0, ord = 2, shell_start = 0, shell_end = 7\<rparr>,
      \<lparr>g1 = 0, g2 = - 1, g3 = 0, ord = 3, shell_start = 0, shell_end = 7\<rparr>,
      \<lparr>g1 = 0, g2 = 1, g3 = 0, ord = 4, shell_start = 0, shell_end = 7\<rparr>,
      \<lparr>g1 = 0, g2 = 0, g3 = - 1, ord = 5, shell_start = 0, shell_end = 7\<rparr>,
      \<lparr>g1 = 0, g2 = 0, g3 = 1, ord = 6, shell_start = 0, shell_end = 7\<rparr>]
     ((1, 0, 0), (0, 1, 0), (0, 0, 1)) ((2, 0, 0), (0, 2, 0), (0, 0, 2)) = Inr [0, 0, 0, 0, 0, 0, 0] \<and>
   \<not> distinct [0, 0, 0, 0, 0, 0, 0 :: int]"
  by code_simp

section \<open>The phase factors of the two evaluators\<close>

lemma inv3_left:
  assumes "inv3 A = Inr Ainv"
  shows "matvec Ainv (matvec A v) = v"
proof -
  obtain a b c d e f g h i where A: "A = ((a, b, c), (d, e, f), (g, h, i))"
    by (metis prod.exhaust)
  obtain x y z where v: "v = (x, y, z)" by (metis prod.exhaust)
  let ?D = "a * (e * i - f * h) - b * (d * i - f * g) + c * (d * h - e * g)"
  from assms A have D: "?D \<noteq> 0"
    by (auto simp: Let_def split: if_splits)
  from assms A D have Ai: "Ainv = (((e * i - f * h) / ?D, (c * h - b * i) / ?D, (b * f - c * e) / ?D),
                   ((f * g - d * i) / ?D, (a * i - c * g) / ?D, (c * d - a * f) / ?D),
                   ((d * h - e * g) / ?D, (b * g - a * h) / ?D, (a * e - b * d) / ?D))"
    by (auto simp: Let_def)
  have 1: "((e * i - f * h) * (a * x + b * y + c * z) + (c * h - b * i) * (d * x + e * y + f * z)
            + (b * f - c * e) * (g * x + h * y + i * z)) = ?D * x"
    by (simp add: algebra_simps)
  have 2: "((f * g - d * i) * (a * x + b * y + c * z) + (a * i - c * g) * (d * x + e * y + f * z)
            + (c * d - a * f) * (g * x + h * y + i * z)) = ?D * y"
    by (simp add: algebra_simps)
  have 3: "((d * h - e * g) * (a * x + b * y + c * z) + (b * g - a * h) * (d * x + e * y + f * z)
            + (a * e - b * d) * (g * x + h * y + i * z)) = ?D * z"
    by (simp add: algebra_simps)
  have "matvec Ainv (matvec A v) =
      (((e * i - f * h) * (a * x + b * y + c * z) + (c * h - b * i) * (d * x + e * y + f * z)
            + (b * f - c * e) * (g * x + h * y + i * z)) / ?D,
       ((f * g - d * i) * (a * x + b * y + c * z) + (a * i - c * g) * (d * x + e * y + f * z)
            + (c * d - a * f) * (g * x + h * y + i * z)) / ?D,
       ((d * h - e * g) * (a * x + b * y + c * z) + (b * g - a * h) * (d * x + e * y + f * z)
            + (a * e - b * d) * (g * x + h * y + i * z)) / ?D)"
    unfolding Ai A v by (simp add: add_divide_distrib)
  also have "\<dots> = v" unfolding 1 2 3 v using D by simp
  finally show ?thesis .
qed

lemma exp_phase_spec:
  "exp (- \<i> * complex_of_real (2 * pi * x)) =
     exp (- (2 * complex_of_real pi * \<i>) * complex_of_real x)"
  by (rule arg_cong [where f = exp]) simp

lemma exp_phase_map:
  "exp_phase (dot_cols v K igall) = map (\<lambda>c. spec_phase v K (gvec_of c)) igall"
  unfolding exp_phase_def dot_cols_def spec_phase_def map_map comp_def exp_phase_spec ..

lemma multZ_eigenvalues_spec:
  "inv3 A = Inr Ainv \<Longrightarrow>
     multZ_eigenvalues K igall A T =
       Inr (map (\<lambda>c. spec_phase (matvec Ainv T) K (gvec_of c)) igall)"
  unfolding multZ_eigenvalues_def exp_phase_map by simp

lemma multZ_matrix_spec:
  "multZ_matrix K igall A T = map (\<lambda>c. spec_phase (matvec A T) K (gvec_of c)) igall"
  unfolding multZ_matrix_def exp_phase_map ..

lemma ph_zero: "exp (- \<i> * complex_of_real (2 * pi * 0)) = 1"
  by simp

lemma ph_half: "exp (- \<i> * complex_of_real (2 * pi * (1 / 2))) = - 1"
proof -
  have "exp (- \<i> * complex_of_real (2 * pi * (1 / 2))) = exp (- (\<i> * complex_of_real pi))"
    by simp
  also have "\<dots> = inverse (exp (\<i> * complex_of_real pi))"
    by (rule exp_minus)
  also have "\<dots> = - 1"
    by (simp add: exp_pi_i')
  finally show ?thesis .
qed

lemma ph_minus_half: "exp (- \<i> * complex_of_real (2 * pi * (- (1 / 2)))) = - 1"
proof -
  have "exp (- \<i> * complex_of_real (2 * pi * (- (1 / 2)))) = exp (\<i> * complex_of_real pi)"
    by simp
  then show ?thesis
    by (simp add: exp_pi_i')
qed

lemma hex_inverse:
  "inv3 ((- 1, - 1, 0), (1, 0, 0), (0, 0, 1)) = Inr ((0, 1, 0), (- 1, - 1, 0), (0, 0, 1))"
  by (simp add: Let_def)

lemma hex_dots_inverse:
  "dot_cols (matvec ((0, 1, 0), (- 1, - 1, 0), (0, 0, 1)) (1 / 2, 0, 0)) (0, 0, 0)
     [\<lparr>g1 = 0, g2 = 0, g3 = 0, ord = 0, shell_start = 0, shell_end = 1\<rparr>,
      \<lparr>g1 = - 1, g2 = 0, g3 = 0, ord = 1, shell_start = 1, shell_end = 7\<rparr>,
      \<lparr>g1 = 1, g2 = 0, g3 = 0, ord = 2, shell_start = 1, shell_end = 7\<rparr>,
      \<lparr>g1 = 0, g2 = - 1, g3 = 0, ord = 3, shell_start = 1, shell_end = 7\<rparr>,
      \<lparr>g1 = 0, g2 = 1, g3 = 0, ord = 4, shell_start = 1, shell_end = 7\<rparr>,
      \<lparr>g1 = - 1, g2 = - 1, g3 = 0, ord = 5, shell_start = 1, shell_end = 7\<rparr>,
      \<lparr>g1 = 1, g2 = 1, g3 = 0, ord = 6, shell_start = 1, shell_end = 7\<rparr>] = [0, 0, 0, 1 / 2, - (1 / 2), 1 / 2, - (1 / 2)]"
  by code_simp

lemma hex_dots_direct:
  "dot_cols (matvec ((- 1, - 1, 0), (1, 0, 0), (0, 0, 1)) (1 / 2, 0, 0)) (0, 0, 0)
     [\<lparr>g1 = 0, g2 = 0, g3 = 0, ord = 0, shell_start = 0, shell_end = 1\<rparr>,
      \<lparr>g1 = - 1, g2 = 0, g3 = 0, ord = 1, shell_start = 1, shell_end = 7\<rparr>,
      \<lparr>g1 = 1, g2 = 0, g3 = 0, ord = 2, shell_start = 1, shell_end = 7\<rparr>,
      \<lparr>g1 = 0, g2 = - 1, g3 = 0, ord = 3, shell_start = 1, shell_end = 7\<rparr>,
      \<lparr>g1 = 0, g2 = 1, g3 = 0, ord = 4, shell_start = 1, shell_end = 7\<rparr>,
      \<lparr>g1 = - 1, g2 = - 1, g3 = 0, ord = 5, shell_start = 1, shell_end = 7\<rparr>,
      \<lparr>g1 = 1, g2 = 1, g3 = 0, ord = 6, shell_start = 1, shell_end = 7\<rparr>] = [0, 1 / 2, - (1 / 2), - (1 / 2), 1 / 2, 0, 0]"
  by code_simp

lemma hex_multZ_eigenvalues:
  "multZ_eigenvalues (0, 0, 0)
     [\<lparr>g1 = 0, g2 = 0, g3 = 0, ord = 0, shell_start = 0, shell_end = 1\<rparr>,
      \<lparr>g1 = - 1, g2 = 0, g3 = 0, ord = 1, shell_start = 1, shell_end = 7\<rparr>,
      \<lparr>g1 = 1, g2 = 0, g3 = 0, ord = 2, shell_start = 1, shell_end = 7\<rparr>,
      \<lparr>g1 = 0, g2 = - 1, g3 = 0, ord = 3, shell_start = 1, shell_end = 7\<rparr>,
      \<lparr>g1 = 0, g2 = 1, g3 = 0, ord = 4, shell_start = 1, shell_end = 7\<rparr>,
      \<lparr>g1 = - 1, g2 = - 1, g3 = 0, ord = 5, shell_start = 1, shell_end = 7\<rparr>,
      \<lparr>g1 = 1, g2 = 1, g3 = 0, ord = 6, shell_start = 1, shell_end = 7\<rparr>] ((- 1, - 1, 0), (1, 0, 0), (0, 0, 1)) (1 / 2, 0, 0) = Inr [1, 1, 1, - 1, - 1, - 1, - 1]"
  by (simp only: multZ_eigenvalues_def hex_inverse sum.case hex_dots_inverse exp_phase_def
      list.map ph_zero ph_half ph_minus_half)

lemma hex_multZ_matrix:
  "multZ_matrix (0, 0, 0)
     [\<lparr>g1 = 0, g2 = 0, g3 = 0, ord = 0, shell_start = 0, shell_end = 1\<rparr>,
      \<lparr>g1 = - 1, g2 = 0, g3 = 0, ord = 1, shell_start = 1, shell_end = 7\<rparr>,
      \<lparr>g1 = 1, g2 = 0, g3 = 0, ord = 2, shell_start = 1, shell_end = 7\<rparr>,
      \<lparr>g1 = 0, g2 = - 1, g3 = 0, ord = 3, shell_start = 1, shell_end = 7\<rparr>,
      \<lparr>g1 = 0, g2 = 1, g3 = 0, ord = 4, shell_start = 1, shell_end = 7\<rparr>,
      \<lparr>g1 = - 1, g2 = - 1, g3 = 0, ord = 5, shell_start = 1, shell_end = 7\<rparr>,
      \<lparr>g1 = 1, g2 = 1, g3 = 0, ord = 6, shell_start = 1, shell_end = 7\<rparr>] ((- 1, - 1, 0), (1, 0, 0), (0, 0, 1)) (1 / 2, 0, 0) = [1, - 1, - 1, - 1, - 1, 1, 1]"
  by (simp only: multZ_matrix_def hex_dots_direct exp_phase_def list.map ph_zero ph_half
      ph_minus_half)

text \<open>
  C3.  The phase of \<open>symm_eigenvalues\<close> is \<open>exp(-2\<pi>i (A\<^sup>-\<^sup>1 T)\<cdot>(G + K))\<close> and the phase of
  \<open>symm_matrix\<close> is \<open>exp(-2\<pi>i (A T)\<cdot>(G + K))\<close>, for every G-vector of the table: the same
  function of the translation vector, applied to \<open>A\<^sup>-\<^sup>1 T\<close> in one and to \<open>A T\<close> in the
  other, where \<open>A\<^sup>-\<^sup>1\<close> undoes \<open>A\<close>.
\<close>

theorem phase_factors:
  assumes "inv3 A = Inr Ainv"
  shows "multZ_eigenvalues K igall A T =
           Inr (map (\<lambda>c. spec_phase (matvec Ainv T) K (gvec_of c)) igall) \<and>
         multZ_matrix K igall A T = map (\<lambda>c. spec_phase (matvec A T) K (gvec_of c)) igall \<and>
         matvec Ainv (matvec A T) = T"
  using assms multZ_eigenvalues_spec multZ_matrix_spec inv3_left by simp

theorem phase_factors_witness:
  "inv3 ((- 1, - 1, 0), (1, 0, 0), (0, 0, 1)) = Inr ((0, 1, 0), (- 1, - 1, 0), (0, 0, 1)) \<and>
   multZ_eigenvalues (0, 0, 0)
     [\<lparr>g1 = 0, g2 = 0, g3 = 0, ord = 0, shell_start = 0, shell_end = 1\<rparr>,
      \<lparr>g1 = - 1, g2 = 0, g3 = 0, ord = 1, shell_start = 1, shell_end = 7\<rparr>,
      \<lparr>g1 = 1, g2 = 0, g3 = 0, ord = 2, shell_start = 1, shell_end = 7\<rparr>,
      \<lparr>g1 = 0, g2 = - 1, g3 = 0, ord = 3, shell_start = 1, shell_end = 7\<rparr>,
      \<lparr>g1 = 0, g2 = 1, g3 = 0, ord = 4, shell_start = 1, shell_end = 7\<rparr>,
      \<lparr>g1 = - 1, g2 = - 1, g3 = 0, ord = 5, shell_start = 1, shell_end = 7\<rparr>,
      \<lparr>g1 = 1, g2 = 1, g3 = 0, ord = 6, shell_start = 1, shell_end = 7\<rparr>] ((- 1, - 1, 0), (1, 0, 0), (0, 0, 1)) (1 / 2, 0, 0) =
     Inr (map (\<lambda>c. spec_phase (0, - (1 / 2), 0) (0, 0, 0) (gvec_of c))
     [\<lparr>g1 = 0, g2 = 0, g3 = 0, ord = 0, shell_start = 0, shell_end = 1\<rparr>,
      \<lparr>g1 = - 1, g2 = 0, g3 = 0, ord = 1, shell_start = 1, shell_end = 7\<rparr>,
      \<lparr>g1 = 1, g2 = 0, g3 = 0, ord = 2, shell_start = 1, shell_end = 7\<rparr>,
      \<lparr>g1 = 0, g2 = - 1, g3 = 0, ord = 3, shell_start = 1, shell_end = 7\<rparr>,
      \<lparr>g1 = 0, g2 = 1, g3 = 0, ord = 4, shell_start = 1, shell_end = 7\<rparr>,
      \<lparr>g1 = - 1, g2 = - 1, g3 = 0, ord = 5, shell_start = 1, shell_end = 7\<rparr>,
      \<lparr>g1 = 1, g2 = 1, g3 = 0, ord = 6, shell_start = 1, shell_end = 7\<rparr>]) \<and>
   multZ_matrix (0, 0, 0)
     [\<lparr>g1 = 0, g2 = 0, g3 = 0, ord = 0, shell_start = 0, shell_end = 1\<rparr>,
      \<lparr>g1 = - 1, g2 = 0, g3 = 0, ord = 1, shell_start = 1, shell_end = 7\<rparr>,
      \<lparr>g1 = 1, g2 = 0, g3 = 0, ord = 2, shell_start = 1, shell_end = 7\<rparr>,
      \<lparr>g1 = 0, g2 = - 1, g3 = 0, ord = 3, shell_start = 1, shell_end = 7\<rparr>,
      \<lparr>g1 = 0, g2 = 1, g3 = 0, ord = 4, shell_start = 1, shell_end = 7\<rparr>,
      \<lparr>g1 = - 1, g2 = - 1, g3 = 0, ord = 5, shell_start = 1, shell_end = 7\<rparr>,
      \<lparr>g1 = 1, g2 = 1, g3 = 0, ord = 6, shell_start = 1, shell_end = 7\<rparr>] ((- 1, - 1, 0), (1, 0, 0), (0, 0, 1)) (1 / 2, 0, 0) =
     map (\<lambda>c. spec_phase (- (1 / 2), 1 / 2, 0) (0, 0, 0) (gvec_of c))
     [\<lparr>g1 = 0, g2 = 0, g3 = 0, ord = 0, shell_start = 0, shell_end = 1\<rparr>,
      \<lparr>g1 = - 1, g2 = 0, g3 = 0, ord = 1, shell_start = 1, shell_end = 7\<rparr>,
      \<lparr>g1 = 1, g2 = 0, g3 = 0, ord = 2, shell_start = 1, shell_end = 7\<rparr>,
      \<lparr>g1 = 0, g2 = - 1, g3 = 0, ord = 3, shell_start = 1, shell_end = 7\<rparr>,
      \<lparr>g1 = 0, g2 = 1, g3 = 0, ord = 4, shell_start = 1, shell_end = 7\<rparr>,
      \<lparr>g1 = - 1, g2 = - 1, g3 = 0, ord = 5, shell_start = 1, shell_end = 7\<rparr>,
      \<lparr>g1 = 1, g2 = 1, g3 = 0, ord = 6, shell_start = 1, shell_end = 7\<rparr>] \<and>
   multZ_eigenvalues (0, 0, 0)
     [\<lparr>g1 = 0, g2 = 0, g3 = 0, ord = 0, shell_start = 0, shell_end = 1\<rparr>,
      \<lparr>g1 = - 1, g2 = 0, g3 = 0, ord = 1, shell_start = 1, shell_end = 7\<rparr>,
      \<lparr>g1 = 1, g2 = 0, g3 = 0, ord = 2, shell_start = 1, shell_end = 7\<rparr>,
      \<lparr>g1 = 0, g2 = - 1, g3 = 0, ord = 3, shell_start = 1, shell_end = 7\<rparr>,
      \<lparr>g1 = 0, g2 = 1, g3 = 0, ord = 4, shell_start = 1, shell_end = 7\<rparr>,
      \<lparr>g1 = - 1, g2 = - 1, g3 = 0, ord = 5, shell_start = 1, shell_end = 7\<rparr>,
      \<lparr>g1 = 1, g2 = 1, g3 = 0, ord = 6, shell_start = 1, shell_end = 7\<rparr>] ((- 1, - 1, 0), (1, 0, 0), (0, 0, 1)) (1 / 2, 0, 0) = Inr [1, 1, 1, - 1, - 1, - 1, - 1] \<and>
   multZ_matrix (0, 0, 0)
     [\<lparr>g1 = 0, g2 = 0, g3 = 0, ord = 0, shell_start = 0, shell_end = 1\<rparr>,
      \<lparr>g1 = - 1, g2 = 0, g3 = 0, ord = 1, shell_start = 1, shell_end = 7\<rparr>,
      \<lparr>g1 = 1, g2 = 0, g3 = 0, ord = 2, shell_start = 1, shell_end = 7\<rparr>,
      \<lparr>g1 = 0, g2 = - 1, g3 = 0, ord = 3, shell_start = 1, shell_end = 7\<rparr>,
      \<lparr>g1 = 0, g2 = 1, g3 = 0, ord = 4, shell_start = 1, shell_end = 7\<rparr>,
      \<lparr>g1 = - 1, g2 = - 1, g3 = 0, ord = 5, shell_start = 1, shell_end = 7\<rparr>,
      \<lparr>g1 = 1, g2 = 1, g3 = 0, ord = 6, shell_start = 1, shell_end = 7\<rparr>] ((- 1, - 1, 0), (1, 0, 0), (0, 0, 1)) (1 / 2, 0, 0) = [1, - 1, - 1, - 1, - 1, 1, 1]"
proof -
  have a: "matvec ((0, 1, 0), (- 1, - 1, 0), (0, 0, 1)) (1 / 2, 0, 0) = (0, - (1 / 2), 0)"
    by simp
  have b: "matvec ((- 1, - 1, 0), (1, 0, 0), (0, 0, 1)) (1 / 2, 0, 0) = (- (1 / 2), 1 / 2, 0)"
    by simp
  note pf = phase_factors [OF hex_inverse, of "(0, 0, 0)"
      "[\<lparr>g1 = 0, g2 = 0, g3 = 0, ord = 0, shell_start = 0, shell_end = 1\<rparr>,
      \<lparr>g1 = - 1, g2 = 0, g3 = 0, ord = 1, shell_start = 1, shell_end = 7\<rparr>,
      \<lparr>g1 = 1, g2 = 0, g3 = 0, ord = 2, shell_start = 1, shell_end = 7\<rparr>,
      \<lparr>g1 = 0, g2 = - 1, g3 = 0, ord = 3, shell_start = 1, shell_end = 7\<rparr>,
      \<lparr>g1 = 0, g2 = 1, g3 = 0, ord = 4, shell_start = 1, shell_end = 7\<rparr>,
      \<lparr>g1 = - 1, g2 = - 1, g3 = 0, ord = 5, shell_start = 1, shell_end = 7\<rparr>,
      \<lparr>g1 = 1, g2 = 1, g3 = 0, ord = 6, shell_start = 1, shell_end = 7\<rparr>]" "(1 / 2, 0, 0)", unfolded a b]
  from pf hex_inverse hex_multZ_eigenvalues hex_multZ_matrix show ?thesis by blast
qed

section \<open>Trace against diagonal\<close>

lemma tab_rotind:
  "transformed_g (0, 0, 0)
     [\<lparr>g1 = 0, g2 = 0, g3 = 0, ord = 0, shell_start = 0, shell_end = 1\<rparr>,
      \<lparr>g1 = 1, g2 = 0, g3 = 0, ord = 1, shell_start = 1, shell_end = 7\<rparr>,
      \<lparr>g1 = - 1, g2 = 0, g3 = 0, ord = 2, shell_start = 1, shell_end = 7\<rparr>,
      \<lparr>g1 = 0, g2 = - 1, g3 = 0, ord = 3, shell_start = 1, shell_end = 7\<rparr>,
      \<lparr>g1 = 0, g2 = 1, g3 = 0, ord = 4, shell_start = 1, shell_end = 7\<rparr>,
      \<lparr>g1 = - 1, g2 = - 1, g3 = 0, ord = 5, shell_start = 1, shell_end = 7\<rparr>,
      \<lparr>g1 = 1, g2 = 1, g3 = 0, ord = 6, shell_start = 1, shell_end = 7\<rparr>]
     ((1, - 1, 0), (0, 1, - 1), (1, 1, 1)) ((- 1, - 1, 0), (1, 0, 0), (0, 0, 1)) =
   Inr [0, 4, 3, 6, 5, 1, 2]"
  by code_simp

lemma tab_length:
  "length
     [\<lparr>g1 = 0, g2 = 0, g3 = 0, ord = 0, shell_start = 0, shell_end = 1\<rparr>,
      \<lparr>g1 = 1, g2 = 0, g3 = 0, ord = 1, shell_start = 1, shell_end = 7\<rparr>,
      \<lparr>g1 = - 1, g2 = 0, g3 = 0, ord = 2, shell_start = 1, shell_end = 7\<rparr>,
      \<lparr>g1 = 0, g2 = - 1, g3 = 0, ord = 3, shell_start = 1, shell_end = 7\<rparr>,
      \<lparr>g1 = 0, g2 = 1, g3 = 0, ord = 4, shell_start = 1, shell_end = 7\<rparr>,
      \<lparr>g1 = - 1, g2 = - 1, g3 = 0, ord = 5, shell_start = 1, shell_end = 7\<rparr>,
      \<lparr>g1 = 1, g2 = 1, g3 = 0, ord = 6, shell_start = 1, shell_end = 7\<rparr>] = 7"
  by simp

lemma tab_dots_inverse:
  "dot_cols (matvec ((0, 1, 0), (- 1, - 1, 0), (0, 0, 1)) (1 / 2, 0, 0)) (0, 0, 0)
     [\<lparr>g1 = 0, g2 = 0, g3 = 0, ord = 0, shell_start = 0, shell_end = 1\<rparr>,
      \<lparr>g1 = 1, g2 = 0, g3 = 0, ord = 1, shell_start = 1, shell_end = 7\<rparr>,
      \<lparr>g1 = - 1, g2 = 0, g3 = 0, ord = 2, shell_start = 1, shell_end = 7\<rparr>,
      \<lparr>g1 = 0, g2 = - 1, g3 = 0, ord = 3, shell_start = 1, shell_end = 7\<rparr>,
      \<lparr>g1 = 0, g2 = 1, g3 = 0, ord = 4, shell_start = 1, shell_end = 7\<rparr>,
      \<lparr>g1 = - 1, g2 = - 1, g3 = 0, ord = 5, shell_start = 1, shell_end = 7\<rparr>,
      \<lparr>g1 = 1, g2 = 1, g3 = 0, ord = 6, shell_start = 1, shell_end = 7\<rparr>] =
   [0, 0, 0, 1 / 2, - (1 / 2), 1 / 2, - (1 / 2)]"
  by code_simp

lemma tab_dots_direct:
  "dot_cols (matvec ((- 1, - 1, 0), (1, 0, 0), (0, 0, 1)) (1 / 2, 0, 0)) (0, 0, 0)
     [\<lparr>g1 = 0, g2 = 0, g3 = 0, ord = 0, shell_start = 0, shell_end = 1\<rparr>,
      \<lparr>g1 = 1, g2 = 0, g3 = 0, ord = 1, shell_start = 1, shell_end = 7\<rparr>,
      \<lparr>g1 = - 1, g2 = 0, g3 = 0, ord = 2, shell_start = 1, shell_end = 7\<rparr>,
      \<lparr>g1 = 0, g2 = - 1, g3 = 0, ord = 3, shell_start = 1, shell_end = 7\<rparr>,
      \<lparr>g1 = 0, g2 = 1, g3 = 0, ord = 4, shell_start = 1, shell_end = 7\<rparr>,
      \<lparr>g1 = - 1, g2 = - 1, g3 = 0, ord = 5, shell_start = 1, shell_end = 7\<rparr>,
      \<lparr>g1 = 1, g2 = 1, g3 = 0, ord = 6, shell_start = 1, shell_end = 7\<rparr>] =
   [0, - (1 / 2), 1 / 2, - (1 / 2), 1 / 2, 0, 0]"
  by code_simp

lemma tab_multZ_eigenvalues:
  "multZ_eigenvalues (0, 0, 0)
     [\<lparr>g1 = 0, g2 = 0, g3 = 0, ord = 0, shell_start = 0, shell_end = 1\<rparr>,
      \<lparr>g1 = 1, g2 = 0, g3 = 0, ord = 1, shell_start = 1, shell_end = 7\<rparr>,
      \<lparr>g1 = - 1, g2 = 0, g3 = 0, ord = 2, shell_start = 1, shell_end = 7\<rparr>,
      \<lparr>g1 = 0, g2 = - 1, g3 = 0, ord = 3, shell_start = 1, shell_end = 7\<rparr>,
      \<lparr>g1 = 0, g2 = 1, g3 = 0, ord = 4, shell_start = 1, shell_end = 7\<rparr>,
      \<lparr>g1 = - 1, g2 = - 1, g3 = 0, ord = 5, shell_start = 1, shell_end = 7\<rparr>,
      \<lparr>g1 = 1, g2 = 1, g3 = 0, ord = 6, shell_start = 1, shell_end = 7\<rparr>]
     ((- 1, - 1, 0), (1, 0, 0), (0, 0, 1)) (1 / 2, 0, 0) = Inr [1, 1, 1, - 1, - 1, - 1, - 1]"
  by (simp only: multZ_eigenvalues_def hex_inverse sum.case tab_dots_inverse exp_phase_def
      list.map ph_zero ph_half ph_minus_half)

lemma tab_multZ_matrix:
  "multZ_matrix (0, 0, 0)
     [\<lparr>g1 = 0, g2 = 0, g3 = 0, ord = 0, shell_start = 0, shell_end = 1\<rparr>,
      \<lparr>g1 = 1, g2 = 0, g3 = 0, ord = 1, shell_start = 1, shell_end = 7\<rparr>,
      \<lparr>g1 = - 1, g2 = 0, g3 = 0, ord = 2, shell_start = 1, shell_end = 7\<rparr>,
      \<lparr>g1 = 0, g2 = - 1, g3 = 0, ord = 3, shell_start = 1, shell_end = 7\<rparr>,
      \<lparr>g1 = 0, g2 = 1, g3 = 0, ord = 4, shell_start = 1, shell_end = 7\<rparr>,
      \<lparr>g1 = - 1, g2 = - 1, g3 = 0, ord = 5, shell_start = 1, shell_end = 7\<rparr>,
      \<lparr>g1 = 1, g2 = 1, g3 = 0, ord = 6, shell_start = 1, shell_end = 7\<rparr>]
     ((- 1, - 1, 0), (1, 0, 0), (0, 0, 1)) (1 / 2, 0, 0) = [1, - 1, - 1, - 1, - 1, 1, 1]"
  by (simp only: multZ_matrix_def tab_dots_direct exp_phase_def list.map ph_zero ph_half
      ph_minus_half)

lemma upt_seven: "[0..<7] = [0, 1, 2, 3, 4, 5, 6]"
  by code_simp

lemma tab_trace:
  "trace_scalar (\<lambda>j. if j = 1 then 3 / 5 else if j = 4 then 4 / 5 else 0)
     [0, 4, 3, 6, 5, 1, 2] [1, 1, 1, - 1, - 1, - 1, - 1] 7 = 12 / 25"
  by (simp add: trace_scalar_def wf_at_def upt_seven)

lemma tab_elem:
  "elem_scalar (\<lambda>j. if j = 1 then 3 / 5 else if j = 4 then 4 / 5 else 0)
     (\<lambda>j. if j = 1 then 3 / 5 else if j = 4 then 4 / 5 else 0)
     [0, 4, 3, 6, 5, 1, 2] [1, - 1, - 1, - 1, - 1, 1, 1] 7 = - (12 / 25)"
  by (simp add: elem_scalar_def wf_at_def upt_seven)

text \<open>
  C4.  On the hexagonal lattice with rows \<open>(1,-1,0), (0,1,-1), (1,1,1)\<close> at \<open>K = 0\<close>, the
  table of the seven G-vectors \<open>0, (1,0,0), (-1,0,0), (0,-1,0), (0,1,0), (-1,-1,0), (1,1,0)\<close>
  (the origin in a shell of its own, the six others in one shell), the threefold rotation
  with the translation \<open>(1/2, 0, 0)\<close>, and one normalised band with the coefficients \<open>3/5\<close>
  on \<open>G = (1,0,0)\<close> (column 1) and \<open>4/5\<close> on its image \<open>(0,1,0)\<close> (column 4): the rotation is
  accepted, the trace of \<open>symm_eigenvalues\<close> is \<open>12/25\<close>, the diagonal element of
  \<open>symm_matrix\<close> is \<open>-12/25\<close>.
\<close>

theorem trace_is_not_diagonal:
  "symm_eigenvalues (0, 0, 0) ((1, - 1, 0), (0, 1, - 1), (1, 1, 1))
     [\<lambda>j. if j = 1 then 3 / 5 else if j = 4 then 4 / 5 else 0]
     [\<lparr>g1 = 0, g2 = 0, g3 = 0, ord = 0, shell_start = 0, shell_end = 1\<rparr>,
      \<lparr>g1 = 1, g2 = 0, g3 = 0, ord = 1, shell_start = 1, shell_end = 7\<rparr>,
      \<lparr>g1 = - 1, g2 = 0, g3 = 0, ord = 2, shell_start = 1, shell_end = 7\<rparr>,
      \<lparr>g1 = 0, g2 = - 1, g3 = 0, ord = 3, shell_start = 1, shell_end = 7\<rparr>,
      \<lparr>g1 = 0, g2 = 1, g3 = 0, ord = 4, shell_start = 1, shell_end = 7\<rparr>,
      \<lparr>g1 = - 1, g2 = - 1, g3 = 0, ord = 5, shell_start = 1, shell_end = 7\<rparr>,
      \<lparr>g1 = 1, g2 = 1, g3 = 0, ord = 6, shell_start = 1, shell_end = 7\<rparr>]
     ((- 1, - 1, 0), (1, 0, 0), (0, 0, 1)) ((1, 0), (0, 1)) (1 / 2, 0, 0) False = Inr [12 / 25] \<and>
   symm_matrix (0, 0, 0) ((1, - 1, 0), (0, 1, - 1), (1, 1, 1))
     [\<lambda>j. if j = 1 then 3 / 5 else if j = 4 then 4 / 5 else 0]
     [\<lparr>g1 = 0, g2 = 0, g3 = 0, ord = 0, shell_start = 0, shell_end = 1\<rparr>,
      \<lparr>g1 = 1, g2 = 0, g3 = 0, ord = 1, shell_start = 1, shell_end = 7\<rparr>,
      \<lparr>g1 = - 1, g2 = 0, g3 = 0, ord = 2, shell_start = 1, shell_end = 7\<rparr>,
      \<lparr>g1 = 0, g2 = - 1, g3 = 0, ord = 3, shell_start = 1, shell_end = 7\<rparr>,
      \<lparr>g1 = 0, g2 = 1, g3 = 0, ord = 4, shell_start = 1, shell_end = 7\<rparr>,
      \<lparr>g1 = - 1, g2 = - 1, g3 = 0, ord = 5, shell_start = 1, shell_end = 7\<rparr>,
      \<lparr>g1 = 1, g2 = 1, g3 = 0, ord = 6, shell_start = 1, shell_end = 7\<rparr>]
     ((- 1, - 1, 0), (1, 0, 0), (0, 0, 1)) ((1, 0), (0, 1)) (1 / 2, 0, 0) False =
       Inr [[- (12 / 25)]] \<and>
   diagonal [[- (12 / 25) :: complex]] \<noteq> [12 / 25]"
proof -
  have e: "symm_eigenvalues (0, 0, 0) ((1, - 1, 0), (0, 1, - 1), (1, 1, 1))
     [\<lambda>j. if j = 1 then 3 / 5 else if j = 4 then 4 / 5 else 0]
     [\<lparr>g1 = 0, g2 = 0, g3 = 0, ord = 0, shell_start = 0, shell_end = 1\<rparr>,
      \<lparr>g1 = 1, g2 = 0, g3 = 0, ord = 1, shell_start = 1, shell_end = 7\<rparr>,
      \<lparr>g1 = - 1, g2 = 0, g3 = 0, ord = 2, shell_start = 1, shell_end = 7\<rparr>,
      \<lparr>g1 = 0, g2 = - 1, g3 = 0, ord = 3, shell_start = 1, shell_end = 7\<rparr>,
      \<lparr>g1 = 0, g2 = 1, g3 = 0, ord = 4, shell_start = 1, shell_end = 7\<rparr>,
      \<lparr>g1 = - 1, g2 = - 1, g3 = 0, ord = 5, shell_start = 1, shell_end = 7\<rparr>,
      \<lparr>g1 = 1, g2 = 1, g3 = 0, ord = 6, shell_start = 1, shell_end = 7\<rparr>]
     ((- 1, - 1, 0), (1, 0, 0), (0, 0, 1)) ((1, 0), (0, 1)) (1 / 2, 0, 0) False = Inr [12 / 25]"
    by (simp only: symm_eigenvalues_def Let_def tab_length tab_multZ_eigenvalues tab_rotind
        sum.case if_False list.map tab_trace)
  have m: "symm_matrix (0, 0, 0) ((1, - 1, 0), (0, 1, - 1), (1, 1, 1))
     [\<lambda>j. if j = 1 then 3 / 5 else if j = 4 then 4 / 5 else 0]
     [\<lparr>g1 = 0, g2 = 0, g3 = 0, ord = 0, shell_start = 0, shell_end = 1\<rparr>,
      \<lparr>g1 = 1, g2 = 0, g3 = 0, ord = 1, shell_start = 1, shell_end = 7\<rparr>,
      \<lparr>g1 = - 1, g2 = 0, g3 = 0, ord = 2, shell_start = 1, shell_end = 7\<rparr>,
      \<lparr>g1 = 0, g2 = - 1, g3 = 0, ord = 3, shell_start = 1, shell_end = 7\<rparr>,
      \<lparr>g1 = 0, g2 = 1, g3 = 0, ord = 4, shell_start = 1, shell_end = 7\<rparr>,
      \<lparr>g1 = - 1, g2 = - 1, g3 = 0, ord = 5, shell_start = 1, shell_end = 7\<rparr>,
      \<lparr>g1 = 1, g2 = 1, g3 = 0, ord = 6, shell_start = 1, shell_end = 7\<rparr>]
     ((- 1, - 1, 0), (1, 0, 0), (0, 0, 1)) ((1, 0), (0, 1)) (1 / 2, 0, 0) False =
       Inr [[- (12 / 25)]]"
    by (simp only: symm_matrix_def Let_def tab_length tab_multZ_matrix tab_rotind sum.case
        if_False list.map tab_elem)
  have d: "diagonal [[- (12 / 25) :: complex]] \<noteq> [12 / 25]"
    by (simp add: diagonal_def)
  from e m d show ?thesis by blast
qed

section \<open>Sorting, cutting and grouping\<close>

lemma length_argsort [simp]: "length (argsort ks) = length ks"
  by (simp add: argsort_def)

lemma map_snd_zip_upt: "map snd (zip ks [0..<length ks]) = [0..<length ks]"
  by (rule map_snd_zip) simp

lemma set_argsort [simp]: "set (argsort ks) = {..<length ks}"
proof -
  have "set (argsort ks) = snd ` set (zip ks [0..<length ks])"
    by (simp add: argsort_def)
  also have "\<dots> = set (map snd (zip ks [0..<length ks]))"
    by (rule set_map [symmetric])
  also have "\<dots> = set [0..<length ks]"
    by (rule arg_cong [where f = set]) (rule map_snd_zip_upt)
  also have "\<dots> = {..<length ks}"
    by (simp add: lessThan_atLeast0)
  finally show ?thesis .
qed

lemma distinct_argsort [simp]: "distinct (argsort ks)"
proof -
  have "distinct (map snd (zip ks [0..<length ks]))"
    by (simp only: map_snd_zip_upt distinct_upt)
  then have "distinct (zip ks [0..<length ks]) \<and> inj_on snd (set (zip ks [0..<length ks]))"
    by (simp only: distinct_map)
  then show ?thesis
    by (simp add: argsort_def distinct_map)
qed

lemma take_idx_argsort: "take_idx ks (argsort ks) = map fst (sort_key fst (zip ks [0..<length ks]))"
proof -
  have "\<forall>p \<in> set (sort_key fst (zip ks [0..<length ks])). ks ! snd p = fst p"
    by (auto simp: set_zip)
  then show ?thesis
    by (simp add: take_idx_def argsort_def)
qed

lemma sorted_take_idx_argsort: "sorted (take_idx ks (argsort ks))"
  by (simp add: take_idx_argsort)

lemma length_take_idx [simp]: "length (take_idx xs p) = length p"
  by (simp add: take_idx_def)

lemma take_idx_map:
  "set p \<subseteq> {..<length xs} \<Longrightarrow> take_idx (map f xs) p = map f (take_idx xs p)"
  by (auto simp: take_idx_def)

lemma set_take_idx: "set p \<subseteq> {..<length xs} \<Longrightarrow> set (take_idx xs p) \<subseteq> set xs"
  by (auto simp: take_idx_def)

lemma distinct_take_idx:
  assumes "distinct xs" "distinct p" "set p \<subseteq> {..<length xs}"
  shows "distinct (take_idx xs p)"
proof -
  from assms(1,3) have "inj_on ((!) xs) (set p)"
    by (meson inj_onI lessThan_iff nth_eq_iff_index_eq subsetD)
  with assms(2) show ?thesis
    by (simp add: take_idx_def distinct_map)
qed

lemma mask_map_pred: "mask (map P (map f xs)) xs = filter (\<lambda>x. P (f x)) xs"
  by (induction xs) (simp_all add: mask_def)

lemma mask_self: "mask (map P ys) ys = filter P ys"
  by (induction ys) (simp_all add: mask_def)

lemma distinct_count_le_one:
  "(\<And>x. count_list xs x \<le> 1) \<Longrightarrow> distinct xs"
proof (induction xs)
  case Nil
  then show ?case by simp
next
  case (Cons a xs)
  from Cons.prems [of a] have "count_list xs a = 0" by simp
  then have "a \<notin> set xs" by (simp add: count_list_0_iff)
  moreover have "count_list xs x \<le> 1" for x
    using Cons.prems [of x] by (simp split: if_splits)
  ultimately show ?case using Cons.IH by simp
qed

lemma distinct_radii: "distinct (concat (map radius_triples [0..M]))"
proof (rule distinct_count_le_one)
  fix x :: gvec
  obtain a b c where "x = (a, b, c)" by (cases x)
  then show "count_list (concat (map radius_triples [0..M])) x \<le> 1"
    by (simp add: count_upto_radius)
qed

lemma found_concat:
  "concat (map (found_at K B Ecut) xs) =
     filter (\<lambda>igp. etot K B igp < Ecut) (concat (map radius_triples xs))"
  by (induction xs) (simp_all add: found_at_def)

lemma enum_loop_shape:
  "enum_loop K B Ecut nplane spinor nplanemax N igall Eg memory = (stuck, ig, eg, r) \<Longrightarrow>
     \<exists>M. ig = igall @ concat (map (found_at K B Ecut) [N..M]) \<and>
         eg = Eg @ map (etot K B) (concat (map (found_at K B Ecut) [N..M]))"
proof (induction K B Ecut nplane spinor nplanemax N igall Eg memory rule: enum_loop.induct)
  case (1 K B Ecut nplane spinor nplanemax N igall Eg memory)
  have empty: "[N..N - 1] = []" by simp
  consider "nplanemax \<le> N"
    | "\<not> nplanemax \<le> N" "stops nplane spinor (length igall) memory"
    | "\<not> nplanemax \<le> N" "\<not> stops nplane spinor (length igall) memory"
    by blast
  then show ?case
  proof cases
    case 1
    with "1.prems" have "ig = igall" "eg = Eg" by (simp_all add: enum_loop_exhausted)
    then show ?thesis using empty by (intro exI [where x = "N - 1"]) simp
  next
    case 2
    with "1.prems" have "ig = igall" "eg = Eg" by (auto simp: enum_loop_stop)
    then show ?thesis using empty by (intro exI [where x = "N - 1"]) simp
  next
    case 3
    with "1.prems" have "enum_loop K B Ecut nplane spinor nplanemax (N + 1)
        (igall @ found_at K B Ecut N) (Eg @ map (etot K B) (found_at K B Ecut N))
        (tl memory @ [found_at K B Ecut N = []]) = (stuck, ig, eg, r)"
      by (simp add: enum_loop_continue)
    with "1.IH" [OF _ _ _ _ refl refl] 3 obtain M where
      M: "ig = (igall @ found_at K B Ecut N) @ concat (map (found_at K B Ecut) [N + 1..M])"
         "eg = (Eg @ map (etot K B) (found_at K B Ecut N)) @
               map (etot K B) (concat (map (found_at K B Ecut) [N + 1..M]))"
      by (auto simp: stops_def)
    show ?thesis
    proof (cases "N \<le> M")
      case True
      then have "[N..M] = N # [N + 1..M]" by (simp add: upto_rec1)
      with M show ?thesis by (intro exI [where x = M]) simp
    next
      case False
      then have "[N + 1..M] = []" "[N..N] = [N]" by simp_all
      with M show ?thesis by (intro exI [where x = N]) simp
    qed
  qed
qed

lemma enum_loop_result:
  assumes "enum_loop K B Ecut nplane spinor nplanemax 0 [] [] memory = (stuck, ig, eg, r)"
  shows "distinct ig" and "eg = map (etot K B) ig" and "\<forall>g \<in> set ig. etot K B g < Ecut"
proof -
  from enum_loop_shape [OF assms] obtain M where
    M: "ig = concat (map (found_at K B Ecut) [0..M])"
       "eg = map (etot K B) (concat (map (found_at K B Ecut) [0..M]))"
    by auto
  from M show "eg = map (etot K B) ig" by simp
  from M(1) have ig: "ig = filter (\<lambda>igp. etot K B igp < Ecut) (concat (map radius_triples [0..M]))"
    by (simp only: found_concat)
  then show "distinct ig" using distinct_radii [of M] by simp
  from ig show "\<forall>g \<in> set ig. etot K B g < Ecut" by simp
qed

lemma canonical_order_result:
  assumes "canonical_order igall Eg = (igall1, Eg1)" and "Eg = map E igall"
  shows "Eg1 = map E igall1" and "set igall1 \<subseteq> set igall"
    and "distinct igall \<Longrightarrow> distinct igall1"
proof -
  from assms(1) obtain p where p: "igall1 = take_idx igall p" "Eg1 = take_idx Eg p"
    "set p = {..<length igall}" "distinct p"
    by (auto simp: canonical_order_def Let_def)
  from p(3) have sub: "set p \<subseteq> {..<length igall}" by simp
  from p assms(2) sub show "Eg1 = map E igall1" by (simp add: take_idx_map)
  from p sub show "set igall1 \<subseteq> set igall" by (simp add: set_take_idx)
  show "distinct igall1" if "distinct igall"
    using that p sub by (simp add: distinct_take_idx)
qed

lemma length_set_shell [simp]: "length (set_shell a b tbl) = length tbl"
  by (simp add: set_shell_def)

lemma nth_set_shell:
  "i < length tbl \<Longrightarrow>
     set_shell a b tbl ! i =
       (if a \<le> i \<and> i < b then (tbl ! i)\<lparr>shell_start := int a, shell_end := int b\<rparr> else tbl ! i)"
  by (simp add: set_shell_def)

lemma gvec_set_shell [simp]: "map gvec_of (set_shell a b tbl) = map gvec_of tbl"
  by (rule nth_equalityI) (simp_all add: nth_set_shell gvec_of_def)

lemma length_fill_shells [simp]: "length (fill_shells ws tbl) = length tbl"
  by (induction ws tbl rule: fill_shells.induct) simp_all

lemma gvec_fill_shells [simp]: "map gvec_of (fill_shells ws tbl) = map gvec_of tbl"
  by (induction ws tbl rule: fill_shells.induct) simp_all

lemma fill_untouched:
  "sorted ws \<Longrightarrow> i < length tbl \<Longrightarrow> ws = [] \<or> i < hd ws \<Longrightarrow> fill_shells ws tbl ! i = tbl ! i"
proof (induction ws tbl rule: fill_shells.induct)
  case (1 a b ws tbl)
  then have "i < a" "a \<le> b" by simp_all
  then have "set_shell a b tbl ! i = tbl ! i"
    using "1.prems"(2) by (simp add: nth_set_shell)
  moreover have "fill_shells (b # ws) (set_shell a b tbl) ! i = set_shell a b tbl ! i"
    using "1.prems" \<open>i < a\<close> \<open>a \<le> b\<close> by (intro "1.IH") simp_all
  ultimately show ?case by simp
qed simp_all

lemma fill_covered:
  "sorted ws \<Longrightarrow> i < length tbl \<Longrightarrow> k + 1 < length ws \<Longrightarrow> ws ! k \<le> i \<Longrightarrow> i < ws ! (k + 1) \<Longrightarrow>
     fill_shells ws tbl ! i =
       (tbl ! i)\<lparr>shell_start := int (ws ! k), shell_end := int (ws ! (k + 1))\<rparr>"
proof (induction ws tbl arbitrary: k rule: fill_shells.induct)
  case (1 a b ws tbl)
  show ?case
  proof (cases k)
    case 0
    with "1.prems" have ab: "a \<le> i" "i < b" by simp_all
    have "fill_shells (b # ws) (set_shell a b tbl) ! i = set_shell a b tbl ! i"
      using "1.prems" ab by (intro fill_untouched) simp_all
    with ab "1.prems"(2) 0 show ?thesis by (simp add: nth_set_shell)
  next
    case (Suc k')
    with "1.prems" have k': "k' + 1 < length (b # ws)" "(b # ws) ! k' \<le> i" "i < (b # ws) ! (k' + 1)"
      by simp_all
    from "1.prems"(1) have sb: "sorted (b # ws)" by simp
    have "b \<le> (b # ws) ! k'"
      using sb k'(1) by (cases k') (auto simp: )
    with k'(2) have "b \<le> i" by simp
    then have same: "set_shell a b tbl ! i = tbl ! i"
      using "1.prems"(2) by (simp add: nth_set_shell)
    have "fill_shells (b # ws) (set_shell a b tbl) ! i =
        (set_shell a b tbl ! i)\<lparr>shell_start := int ((b # ws) ! k'),
           shell_end := int ((b # ws) ! (k' + 1))\<rparr>"
      using sb "1.prems"(2) k' by (intro "1.IH") simp_all
    with same Suc show ?thesis by simp
  qed
qed simp_all

lemma cover_exists:
  "sorted ws \<Longrightarrow> ws \<noteq> [] \<Longrightarrow> hd ws \<le> i \<Longrightarrow> i < last ws \<Longrightarrow>
     \<exists>k. k + 1 < length ws \<and> ws ! k \<le> i \<and> i < ws ! (k + 1)"
proof (induction ws)
  case Nil
  then show ?case by simp
next
  case (Cons a rest)
  note prems = Cons.prems and IH = Cons.IH
  from prems have "rest \<noteq> []" by auto
  then obtain b r where rest: "rest = b # r" by (cases rest) auto
  show ?case
  proof (cases "i < b")
    case True
    with prems rest show ?thesis by (intro exI [where x = 0]) simp
  next
    case False
    have "\<exists>k. k + 1 < length rest \<and> rest ! k \<le> i \<and> i < rest ! (k + 1)"
    proof (rule IH)
      from prems show "sorted rest" by simp
      from rest show "rest \<noteq> []" by simp
      from False rest show "hd rest \<le> i" by simp
      from prems \<open>rest \<noteq> []\<close> show "i < last rest" by simp
    qed
    then obtain k where "k + 1 < length rest \<and> rest ! k \<le> i \<and> i < rest ! (k + 1)" ..
    then show ?thesis by (intro exI [where x = "Suc k"]) simp
  qed
qed

lemma no_wall_between:
  assumes "sorted ws" "k + 1 < length ws" "ws ! k < j" "j < ws ! (k + 1)"
  shows "j \<notin> set ws"
proof
  assume "j \<in> set ws"
  then obtain m where m: "m < length ws" "ws ! m = j" by (auto simp: in_set_conv_nth)
  show False
  proof (cases "m \<le> k")
    case True
    with assms(1,2) have "ws ! m \<le> ws ! k" by (intro sorted_nth_mono) simp_all
    with m assms(3) show False by simp
  next
    case False
    then have "k + 1 \<le> m" by simp
    with assms(1) m(1) have "ws ! (k + 1) \<le> ws ! m" by (intro sorted_nth_mono) simp_all
    with m assms(4) show False by simp
  qed
qed

lemma walls_sorted: "sorted (walls Eg thresh)"
proof -
  let ?mid = "map (\<lambda>i. i + 1) (filter (\<lambda>i. Eg ! (i + 1) - Eg ! i > thresh) [0..<length Eg - 1])"
  have "sorted (map (\<lambda>i. i + 1) [0..<length Eg - 1])"
    by (simp add: sorted_map)
  then have "sorted ?mid" by (rule sorted_filter)
  moreover have "\<forall>x \<in> set ?mid. x \<le> length Eg" by auto
  ultimately show ?thesis
    by (simp add: walls_def sorted_append)
qed

lemma walls_ends:
  "walls Eg thresh \<noteq> []" "hd (walls Eg thresh) = 0" "last (walls Eg thresh) = length Eg"
  by (simp_all add: walls_def)

lemma walls_mem:
  assumes "0 < j" "j < length Eg"
  shows "j \<in> set (walls Eg thresh) \<longleftrightarrow> Eg ! j - Eg ! (j - 1) > thresh"
proof
  assume "j \<in> set (walls Eg thresh)"
  with assms obtain i where "i < length Eg - 1" "Eg ! (i + 1) - Eg ! i > thresh" "j = i + 1"
    by (auto simp: walls_def)
  then show "Eg ! j - Eg ! (j - 1) > thresh" by simp
next
  assume c: "Eg ! j - Eg ! (j - 1) > thresh"
  from assms have "j - 1 < length Eg - 1" "j = (j - 1) + 1" by simp_all
  with c have "j \<in> (\<lambda>i. i + 1) ` {i \<in> set [0..<length Eg - 1]. Eg ! (i + 1) - Eg ! i > thresh}"
    by (intro image_eqI [where x = "j - 1"]) simp_all
  then show "j \<in> set (walls Eg thresh)" by (simp add: walls_def)
qed

lemma walls_nth_le:
  "k < length (walls Eg thresh) \<Longrightarrow> walls Eg thresh ! k \<le> length Eg"
proof -
  assume "k < length (walls Eg thresh)"
  then have "walls Eg thresh ! k \<in> set (walls Eg thresh)" by simp
  then show ?thesis by (auto simp: walls_def)
qed

lemma shells_filled:
  assumes len: "length tbl = length Eg" and i: "i < length Eg"
  shows "\<exists>a b. a \<le> i \<and> i < b \<and> b \<le> length Eg \<and>
           (\<forall>j. a \<le> j \<and> j < b \<longrightarrow>
              shell_start (fill_shells (walls Eg thresh) tbl ! j) = int a \<and>
              shell_end (fill_shells (walls Eg thresh) tbl ! j) = int b) \<and>
           (\<forall>j. a \<le> j \<and> Suc j < b \<longrightarrow> Eg ! Suc j - Eg ! j \<le> thresh) \<and>
           (b < length Eg \<longrightarrow> Eg ! b - Eg ! (b - 1) > thresh)"
proof -
  define ws where "ws = walls Eg thresh"
  have s: "sorted ws" unfolding ws_def by (rule walls_sorted)
  have ne: "ws \<noteq> []" and hd: "hd ws = 0" and la: "last ws = length Eg"
    unfolding ws_def by (rule walls_ends)+
  have "hd ws \<le> i" using hd by simp
  moreover have "i < last ws" using la i by simp
  ultimately have "\<exists>k. k + 1 < length ws \<and> ws ! k \<le> i \<and> i < ws ! (k + 1)"
    using s ne by (intro cover_exists)
  then obtain k where k: "k + 1 < length ws" "ws ! k \<le> i" "i < ws ! (k + 1)"
    by blast
  define a where "a = ws ! k"
  define b where "b = ws ! (k + 1)"
  have bn: "b \<le> length Eg"
    unfolding b_def ws_def using k(1) [unfolded ws_def] by (rule walls_nth_le)
  have fill: "shell_start (fill_shells ws tbl ! j) = int a \<and>
              shell_end (fill_shells ws tbl ! j) = int b" if "a \<le> j" "j < b" for j
  proof -
    from that(2) bn len have jl: "j < length tbl" by simp
    have "fill_shells ws tbl ! j =
        (tbl ! j)\<lparr>shell_start := int (ws ! k), shell_end := int (ws ! (k + 1))\<rparr>"
      using s jl k(1) that [unfolded a_def b_def] by (rule fill_covered)
    then show ?thesis by (simp add: a_def b_def)
  qed
  have gap: "Eg ! Suc j - Eg ! j \<le> thresh" if "a \<le> j" "Suc j < b" for j
  proof -
    have "ws ! k < Suc j" using that(1) by (simp add: a_def)
    moreover have "Suc j < ws ! (k + 1)" using that(2) by (simp add: b_def)
    ultimately have "Suc j \<notin> set ws"
      using s k(1) by (intro no_wall_between)
    moreover have "0 < Suc j" by simp
    moreover have "Suc j < length Eg" using that(2) bn by simp
    ultimately have "\<not> Eg ! Suc j - Eg ! (Suc j - 1) > thresh"
      using walls_mem [of "Suc j" Eg thresh] by (simp add: ws_def)
    then show ?thesis by simp
  qed
  have wall: "Eg ! b - Eg ! (b - 1) > thresh" if "b < length Eg"
  proof -
    have "b \<in> set ws" unfolding b_def using k(1) by (intro nth_mem)
    moreover have "0 < b" using k(3) by (simp add: b_def)
    ultimately show ?thesis using that walls_mem [of b Eg thresh] by (simp add: ws_def)
  qed
  have "a \<le> i" "i < b" using k by (simp_all add: a_def b_def)
  with bn fill gap wall have
    "a \<le> i \<and> i < b \<and> b \<le> length Eg \<and>
           (\<forall>j. a \<le> j \<and> j < b \<longrightarrow>
              shell_start (fill_shells ws tbl ! j) = int a \<and>
              shell_end (fill_shells ws tbl ! j) = int b) \<and>
           (\<forall>j. a \<le> j \<and> Suc j < b \<longrightarrow> Eg ! Suc j - Eg ! j \<le> thresh) \<and>
           (b < length Eg \<longrightarrow> Eg ! b - Eg ! (b - 1) > thresh)"
    by blast
  then show ?thesis unfolding ws_def by (intro exI)
qed

lemma cut_sort_group_shape:
  assumes "Eg = map E igall1"
  shows "\<exists>tbl2. cut_sort_group igall1 Eg Ecut1 thresh =
             fill_shells (walls (map (\<lambda>c. E (gvec_of c)) tbl2) thresh) tbl2 \<and>
           sorted (map (\<lambda>c. E (gvec_of c)) tbl2) \<and>
           (\<forall>c \<in> set tbl2. E (gvec_of c) \<le> Ecut1 \<and> gvec_of c \<in> set igall1) \<and>
           (distinct igall1 \<longrightarrow> distinct (map gvec_of tbl2))"
proof -
  define en where "en = (\<lambda>c. E (gvec_of c))"
  define tbl0 where "tbl0 = map (\<lambda>(i, (a, b, c)).
                   \<lparr>g1 = a, g2 = b, g3 = c, ord = int i, shell_start = 0, shell_end = 0\<rparr>)
                   (zip [0..<length igall1] igall1)"
  define tbl1 where "tbl1 = filter (\<lambda>c. en c \<le> Ecut1) tbl0"
  define Eg1 where "Eg1 = map en tbl1"
  define srt where "srt = argsort Eg1"
  define tbl2 where "tbl2 = take_idx tbl1 srt"
  have g0: "map gvec_of tbl0 = igall1"
    unfolding tbl0_def by (rule nth_equalityI) (auto simp: gvec_of_def split: prod.splits)
  have Eg0: "Eg = map en tbl0"
    unfolding assms en_def g0 [symmetric] by simp
  have m1: "mask (map (\<lambda>e. e \<le> Ecut1) Eg) tbl0 = tbl1"
    unfolding Eg0 tbl1_def by (rule mask_map_pred)
  have m2: "mask (map (\<lambda>e. e \<le> Ecut1) Eg) Eg = Eg1"
    unfolding Eg1_def tbl1_def Eg0 mask_self by (simp add: filter_map comp_def)
  have sub: "set srt \<subseteq> {..<length tbl1}"
    unfolding srt_def Eg1_def by simp
  have Eg2: "take_idx Eg1 srt = map en tbl2"
    unfolding tbl2_def Eg1_def using sub by (rule take_idx_map)
  have res: "cut_sort_group igall1 Eg Ecut1 thresh = fill_shells (walls (map en tbl2) thresh) tbl2"
    unfolding cut_sort_group_def Let_def tbl0_def [symmetric] m1 m2 srt_def [symmetric]
      Eg2 tbl2_def [symmetric] ..
  have so: "sorted (map en tbl2)"
    unfolding Eg2 [symmetric] srt_def by (rule sorted_take_idx_argsort)
  have s2: "set tbl2 \<subseteq> set tbl1"
    unfolding tbl2_def using sub by (rule set_take_idx)
  have mem: "en c \<le> Ecut1 \<and> gvec_of c \<in> set igall1" if "c \<in> set tbl2" for c
  proof -
    from that s2 have "c \<in> set tbl1" by blast
    then have "en c \<le> Ecut1" "c \<in> set tbl0" by (simp_all add: tbl1_def)
    moreover from \<open>c \<in> set tbl0\<close> have "gvec_of c \<in> set (map gvec_of tbl0)" by simp
    ultimately show ?thesis by (simp add: g0)
  qed
  have di: "distinct (map gvec_of tbl2)" if "distinct igall1"
  proof -
    from that have "distinct (map gvec_of tbl0)" by (simp add: g0)
    then have "distinct (map gvec_of tbl1)"
      unfolding tbl1_def by (rule distinct_map_filter)
    moreover have "map gvec_of tbl2 = take_idx (map gvec_of tbl1) srt"
      unfolding tbl2_def using sub by (rule take_idx_map [symmetric])
    moreover have "distinct srt" unfolding srt_def by simp
    ultimately show ?thesis using sub by (simp add: distinct_take_idx)
  qed
  from res so mem di show ?thesis
    unfolding en_def by blast
qed

lemma calc_gvectors_Inr:
  assumes "calc_gvectors K B Ecut nplane Ecut1 thresh spinor nplanemax = Inr tbl"
  shows "\<exists>tbl2. tbl = fill_shells (walls (map (\<lambda>c. etot K B (gvec_of c)) tbl2) thresh) tbl2 \<and>
           sorted (map (\<lambda>c. etot K B (gvec_of c)) tbl2) \<and>
           (\<forall>c \<in> set tbl2. etot K B (gvec_of c) \<le> (if Ecut1 \<le> 0 then Ecut else Ecut1) \<and>
               etot K B (gvec_of c) < Ecut) \<and>
           distinct (map gvec_of tbl2)"
proof -
  obtain stuck igall Eg rounds where
    loop: "enum_loop K B Ecut nplane spinor nplanemax 0 [] [] (replicate 10 True) =
             (stuck, igall, Eg, rounds)"
    by (metis prod.exhaust)
  obtain igall1 Eg1 where co: "canonical_order igall Eg = (igall1, Eg1)"
    by (metis prod.exhaust)
  from assms loop co have
    tbl: "tbl = cut_sort_group igall1 Eg1 (if Ecut1 \<le> 0 then Ecut else Ecut1) thresh"
    by (simp add: calc_gvectors_def Let_def split: if_splits)
  note r = enum_loop_result [OF loop]
  note c = canonical_order_result [OF co r(2)]
  from cut_sort_group_shape [OF c(1), of "if Ecut1 \<le> 0 then Ecut else Ecut1" thresh]
  obtain tbl2 where t2:
    "cut_sort_group igall1 Eg1 (if Ecut1 \<le> 0 then Ecut else Ecut1) thresh =
       fill_shells (walls (map (\<lambda>c. etot K B (gvec_of c)) tbl2) thresh) tbl2"
    "sorted (map (\<lambda>c. etot K B (gvec_of c)) tbl2)"
    "\<forall>c \<in> set tbl2. etot K B (gvec_of c) \<le> (if Ecut1 \<le> 0 then Ecut else Ecut1) \<and>
        gvec_of c \<in> set igall1"
    "distinct igall1 \<longrightarrow> distinct (map gvec_of tbl2)"
    by blast
  have "etot K B (gvec_of c) < Ecut" if "c \<in> set tbl2" for c
  proof -
    from that t2(3) have "gvec_of c \<in> set igall1" by blast
    with c(2) have "gvec_of c \<in> set igall" by blast
    with r(3) show ?thesis by blast
  qed
  moreover from c(3) [OF r(1)] t2(4) have "distinct (map gvec_of tbl2)" by blast
  ultimately show ?thesis using tbl t2(1,2,3) by blast
qed

lemma fill_energy:
  "map (\<lambda>c. E (gvec_of c)) (fill_shells ws tbl) = map (\<lambda>c. E (gvec_of c)) tbl"
proof -
  have "map (E \<circ> gvec_of) (fill_shells ws tbl) = map (E \<circ> gvec_of) tbl"
    by (simp only: map_map [symmetric] gvec_fill_shells)
  then show ?thesis by (simp only: comp_def)
qed

lemma calc_gvectors_sorted:
  assumes "calc_gvectors K B Ecut nplane Ecut1 thresh spinor nplanemax = Inr tbl"
  shows "sorted (map (\<lambda>c. etot K B (gvec_of c)) tbl)"
proof -
  from calc_gvectors_Inr [OF assms] obtain tbl2 where
    "tbl = fill_shells (walls (map (\<lambda>c. etot K B (gvec_of c)) tbl2) thresh) tbl2"
    "sorted (map (\<lambda>c. etot K B (gvec_of c)) tbl2)"
    by blast
  then show ?thesis by (simp only: fill_energy)
qed

lemma calc_gvectors_distinct:
  assumes "calc_gvectors K B Ecut nplane Ecut1 thresh spinor nplanemax = Inr tbl"
  shows "distinct (map gvec_of tbl)"
proof -
  from calc_gvectors_Inr [OF assms] obtain tbl2 where
    "tbl = fill_shells (walls (map (\<lambda>c. etot K B (gvec_of c)) tbl2) thresh) tbl2"
    "distinct (map gvec_of tbl2)"
    by blast
  then show ?thesis by (simp only: gvec_fill_shells)
qed

lemma calc_gvectors_energy:
  assumes "calc_gvectors K B Ecut nplane Ecut1 thresh spinor nplanemax = Inr tbl"
    and "c \<in> set tbl"
  shows "etot K B (gvec_of c) < Ecut"
    and "etot K B (gvec_of c) \<le> (if Ecut1 \<le> 0 then Ecut else Ecut1)"
proof -
  from calc_gvectors_Inr [OF assms(1)] obtain tbl2 where t:
    "tbl = fill_shells (walls (map (\<lambda>c. etot K B (gvec_of c)) tbl2) thresh) tbl2"
    "\<forall>c \<in> set tbl2. etot K B (gvec_of c) \<le> (if Ecut1 \<le> 0 then Ecut else Ecut1) \<and>
               etot K B (gvec_of c) < Ecut"
    by blast
  from assms(2) have "gvec_of c \<in> set (map gvec_of tbl)" by simp
  then have "gvec_of c \<in> set (map gvec_of tbl2)"
    unfolding t(1) by (simp only: gvec_fill_shells)
  then obtain c2 where "c2 \<in> set tbl2" "gvec_of c2 = gvec_of c" by auto
  with t(2) show "etot K B (gvec_of c) < Ecut"
    and "etot K B (gvec_of c) \<le> (if Ecut1 \<le> 0 then Ecut else Ecut1)"
    by (metis)+
qed

lemma calc_gvectors_shells:
  assumes "calc_gvectors K B Ecut nplane Ecut1 thresh spinor nplanemax = Inr tbl"
    and "i < length tbl"
  shows "\<exists>a b. shell_start (tbl ! i) = int a \<and> shell_end (tbl ! i) = int b \<and>
           a \<le> i \<and> i < b \<and> b \<le> length tbl \<and>
           (\<forall>j. a \<le> j \<and> j < b \<longrightarrow>
              shell_start (tbl ! j) = int a \<and> shell_end (tbl ! j) = int b) \<and>
           (\<forall>j. a \<le> j \<and> Suc j < b \<longrightarrow>
              etot K B (gvec_of (tbl ! Suc j)) - etot K B (gvec_of (tbl ! j)) \<le> thresh) \<and>
           (b < length tbl \<longrightarrow>
              etot K B (gvec_of (tbl ! b)) - etot K B (gvec_of (tbl ! (b - 1))) > thresh)"
proof -
  from calc_gvectors_Inr [OF assms(1)] obtain tbl2 where
    t: "tbl = fill_shells (walls (map (\<lambda>c. etot K B (gvec_of c)) tbl2) thresh) tbl2"
    by blast
  define Eg where "Eg = map (\<lambda>c. etot K B (gvec_of c)) tbl2"
  have tE: "tbl = fill_shells (walls Eg thresh) tbl2"
    unfolding Eg_def by (rule t)
  have len2: "length tbl2 = length Eg"
    by (simp add: Eg_def)
  have len: "length tbl = length Eg"
    unfolding tE len2 [symmetric] by (rule length_fill_shells)
  have mapE: "map (\<lambda>c. etot K B (gvec_of c)) tbl = Eg"
    unfolding Eg_def tE [unfolded Eg_def] by (rule fill_energy)
  have nth: "etot K B (gvec_of (tbl ! j)) = Eg ! j" if "j < length tbl" for j
  proof -
    from that have "map (\<lambda>c. etot K B (gvec_of c)) tbl ! j = etot K B (gvec_of (tbl ! j))"
      by (rule nth_map)
    then show ?thesis by (simp only: mapE)
  qed
  from assms(2) have iE: "i < length Eg" by (simp only: len)
  from shells_filled [OF len2 iE, of thresh] obtain a b where ab:
    "a \<le> i \<and> i < b \<and> b \<le> length Eg \<and>
     (\<forall>j. a \<le> j \<and> j < b \<longrightarrow>
        shell_start (fill_shells (walls Eg thresh) tbl2 ! j) = int a \<and>
        shell_end (fill_shells (walls Eg thresh) tbl2 ! j) = int b) \<and>
     (\<forall>j. a \<le> j \<and> Suc j < b \<longrightarrow> Eg ! Suc j - Eg ! j \<le> thresh) \<and>
     (b < length Eg \<longrightarrow> Eg ! b - Eg ! (b - 1) > thresh)"
    by (elim exE)
  from ab have a1: "a \<le> i" and a2: "i < b" and a3: "b \<le> length Eg" by simp_all
  from ab have a4: "\<And>j. a \<le> j \<Longrightarrow> j < b \<Longrightarrow>
        shell_start (tbl ! j) = int a \<and> shell_end (tbl ! j) = int b"
    unfolding tE [symmetric] by simp
  from ab have a5: "\<And>j. a \<le> j \<Longrightarrow> Suc j < b \<Longrightarrow> Eg ! Suc j - Eg ! j \<le> thresh"
    by simp
  from ab have a6: "b < length Eg \<Longrightarrow> Eg ! b - Eg ! (b - 1) > thresh"
    by simp
  have c0: "shell_start (tbl ! i) = int a \<and> shell_end (tbl ! i) = int b"
    using a1 a2 by (rule a4)
  have c2: "etot K B (gvec_of (tbl ! Suc j)) - etot K B (gvec_of (tbl ! j)) \<le> thresh"
    if "a \<le> j \<and> Suc j < b" for j
  proof -
    from that a3 have l: "Suc j < length tbl" "j < length tbl" by (simp_all add: len)
    from that have "Eg ! Suc j - Eg ! j \<le> thresh" by (intro a5) simp_all
    then show ?thesis by (simp only: nth [OF l(1)] nth [OF l(2)])
  qed
  have c3: "etot K B (gvec_of (tbl ! b)) - etot K B (gvec_of (tbl ! (b - 1))) > thresh"
    if "b < length tbl"
  proof -
    from that have l: "b < length tbl" "b - 1 < length tbl" by simp_all
    from that have "Eg ! b - Eg ! (b - 1) > thresh" by (intro a6) (simp add: len)
    then show ?thesis by (simp only: nth [OF l(1)] nth [OF l(2)])
  qed
  have c1: "\<forall>j. a \<le> j \<and> j < b \<longrightarrow>
              shell_start (tbl ! j) = int a \<and> shell_end (tbl ! j) = int b"
    using a4 by blast
  have c2': "\<forall>j. a \<le> j \<and> Suc j < b \<longrightarrow>
              etot K B (gvec_of (tbl ! Suc j)) - etot K B (gvec_of (tbl ! j)) \<le> thresh"
    using c2 by blast
  have c3': "b < length tbl \<longrightarrow>
              etot K B (gvec_of (tbl ! b)) - etot K B (gvec_of (tbl ! (b - 1))) > thresh"
    using c3 by blast
  have bl: "b \<le> length tbl" using a3 by (simp only: len)
  have "shell_start (tbl ! i) = int a \<and> shell_end (tbl ! i) = int b \<and>
           a \<le> i \<and> i < b \<and> b \<le> length tbl \<and>
           (\<forall>j. a \<le> j \<and> j < b \<longrightarrow>
              shell_start (tbl ! j) = int a \<and> shell_end (tbl ! j) = int b) \<and>
           (\<forall>j. a \<le> j \<and> Suc j < b \<longrightarrow>
              etot K B (gvec_of (tbl ! Suc j)) - etot K B (gvec_of (tbl ! j)) \<le> thresh) \<and>
           (b < length tbl \<longrightarrow>
              etot K B (gvec_of (tbl ! b)) - etot K B (gvec_of (tbl ! (b - 1))) > thresh)"
    using c0 a1 a2 bl c1 c2' c3' by (intro conjI) simp_all
  then show ?thesis by (intro exI)
qed

section \<open>The table of \<open>calc_gvectors\<close> and the identity rotation\<close>

lemma inv3_identity:
  "inv3 ((1, 0, 0), (0, 1, 0), (0, 0, 1)) = Inr ((1, 0, 0), (0, 1, 0), (0, 0, 1))"
  by (simp add: Let_def)

lemma identity_shift: "kpt_shift ((1, 0, 0), (0, 1, 0), (0, 0, 1)) kpt = (0, 0, 0)"
  by (cases kpt) (simp add: kpt_shift_def)

lemma identity_igTr:
  "igTr_of ((1, 0, 0), (0, 1, 0), (0, 0, 1)) (0, 0, 0) ig = map gvec_of ig"
  by (simp add: igTr_of_def gvec_of_def)

lemma zip_gvec: "zip (map gvec_of ig) ig = map (\<lambda>c. (gvec_of c, c)) ig"
  by (induction ig) simp_all

lemma calc_gvectors_bounds:
  assumes "calc_gvectors K B Ecut nplane Ecut1 thresh spinor nplanemax = Inr tbl"
    and "i < length tbl"
  shows "0 \<le> shell_start (tbl ! i) \<and> shell_start (tbl ! i) \<le> int i \<and>
         int i < shell_end (tbl ! i) \<and> shell_end (tbl ! i) \<le> int (length tbl)"
proof -
  from calc_gvectors_shells [OF assms] obtain a b where
    "shell_start (tbl ! i) = int a" "shell_end (tbl ! i) = int b"
    "a \<le> i" "i < b" "b \<le> length tbl"
    by blast
  then show ?thesis by simp
qed

text \<open>
  C5.  On every table that \<open>calc_gvectors\<close> returns, and for every k-point and lattice,
  \<open>transformed_g\<close> with the identity rotation returns the identity permutation.
\<close>

theorem identity_rotation:
  assumes "calc_gvectors K B Ecut nplane Ecut1 thresh spinor nplanemax = Inr tbl"
  shows "transformed_g kpt tbl RecLattice ((1, 0, 0), (0, 1, 0), (0, 0, 1)) =
           Inr (map int [0..<length tbl])"
proof -
  have d: "distinct (map gvec_of tbl)"
    using assms by (rule calc_gvectors_distinct)
  have b: "\<forall>i < length tbl. 0 \<le> shell_start (tbl ! i) \<and> shell_start (tbl ! i) \<le> int i \<and>
            int i < shell_end (tbl ! i) \<and> shell_end (tbl ! i) \<le> int (length tbl)"
    using calc_gvectors_bounds [OF assms] by blast
  have "rot_entries tbl (map (\<lambda>c. (gvec_of c, c)) tbl) = Inr (map int [length ([] :: gcol list)..<length tbl])"
    using _ d b by (rule rot_entries_identity) simp
  then have "rot_entries tbl (zip (map gvec_of tbl) tbl) = Inr (map int [0..<length tbl])"
    by (simp only: zip_gvec list.size)
  then show ?thesis
    by (simp add: transformed_g_unfold [OF inv3_identity] identity_shift identity_igTr
        isclose_def)
qed

theorem identity_rotation_witness:
  "calc_gvectors (0, 0, 0) ((1, 0, 0), (0, 1, 0), (0, 0, 1)) 4 None 0 (1 / 1000) False 2 =
     Inr [\<lparr>g1 = 0, g2 = 0, g3 = 0, ord = 0, shell_start = 0, shell_end = 1\<rparr>,
      \<lparr>g1 = - 1, g2 = 0, g3 = 0, ord = 1, shell_start = 1, shell_end = 7\<rparr>,
      \<lparr>g1 = 1, g2 = 0, g3 = 0, ord = 2, shell_start = 1, shell_end = 7\<rparr>,
      \<lparr>g1 = 0, g2 = - 1, g3 = 0, ord = 3, shell_start = 1, shell_end = 7\<rparr>,
      \<lparr>g1 = 0, g2 = 1, g3 = 0, ord = 4, shell_start = 1, shell_end = 7\<rparr>,
      \<lparr>g1 = 0, g2 = 0, g3 = - 1, ord = 5, shell_start = 1, shell_end = 7\<rparr>,
      \<lparr>g1 = 0, g2 = 0, g3 = 1, ord = 6, shell_start = 1, shell_end = 7\<rparr>] \<and>
   transformed_g (1 / 4, 1 / 3, 0)
     [\<lparr>g1 = 0, g2 = 0, g3 = 0, ord = 0, shell_start = 0, shell_end = 1\<rparr>,
      \<lparr>g1 = - 1, g2 = 0, g3 = 0, ord = 1, shell_start = 1, shell_end = 7\<rparr>,
      \<lparr>g1 = 1, g2 = 0, g3 = 0, ord = 2, shell_start = 1, shell_end = 7\<rparr>,
      \<lparr>g1 = 0, g2 = - 1, g3 = 0, ord = 3, shell_start = 1, shell_end = 7\<rparr>,
      \<lparr>g1 = 0, g2 = 1, g3 = 0, ord = 4, shell_start = 1, shell_end = 7\<rparr>,
      \<lparr>g1 = 0, g2 = 0, g3 = - 1, ord = 5, shell_start = 1, shell_end = 7\<rparr>,
      \<lparr>g1 = 0, g2 = 0, g3 = 1, ord = 6, shell_start = 1, shell_end = 7\<rparr>] ((2, 0, 0), (0, 3, 0), (0, 0, 5)) ((1, 0, 0), (0, 1, 0), (0, 0, 1)) =
     Inr (map int [0..<length
     [\<lparr>g1 = 0, g2 = 0, g3 = 0, ord = 0, shell_start = 0, shell_end = 1\<rparr>,
      \<lparr>g1 = - 1, g2 = 0, g3 = 0, ord = 1, shell_start = 1, shell_end = 7\<rparr>,
      \<lparr>g1 = 1, g2 = 0, g3 = 0, ord = 2, shell_start = 1, shell_end = 7\<rparr>,
      \<lparr>g1 = 0, g2 = - 1, g3 = 0, ord = 3, shell_start = 1, shell_end = 7\<rparr>,
      \<lparr>g1 = 0, g2 = 1, g3 = 0, ord = 4, shell_start = 1, shell_end = 7\<rparr>,
      \<lparr>g1 = 0, g2 = 0, g3 = - 1, ord = 5, shell_start = 1, shell_end = 7\<rparr>,
      \<lparr>g1 = 0, g2 = 0, g3 = 1, ord = 6, shell_start = 1, shell_end = 7\<rparr>]]) \<and>
   map int [0..<length
     [\<lparr>g1 = 0, g2 = 0, g3 = 0, ord = 0, shell_start = 0, shell_end = 1\<rparr>,
      \<lparr>g1 = - 1, g2 = 0, g3 = 0, ord = 1, shell_start = 1, shell_end = 7\<rparr>,
      \<lparr>g1 = 1, g2 = 0, g3 = 0, ord = 2, shell_start = 1, shell_end = 7\<rparr>,
      \<lparr>g1 = 0, g2 = - 1, g3 = 0, ord = 3, shell_start = 1, shell_end = 7\<rparr>,
      \<lparr>g1 = 0, g2 = 1, g3 = 0, ord = 4, shell_start = 1, shell_end = 7\<rparr>,
      \<lparr>g1 = 0, g2 = 0, g3 = - 1, ord = 5, shell_start = 1, shell_end = 7\<rparr>,
      \<lparr>g1 = 0, g2 = 0, g3 = 1, ord = 6, shell_start = 1, shell_end = 7\<rparr>]] = [0, 1, 2, 3, 4, 5, 6]"
proof -
  have h: "calc_gvectors (0, 0, 0) ((1, 0, 0), (0, 1, 0), (0, 0, 1)) 4 None 0 (1 / 1000) False 2 =
     Inr [\<lparr>g1 = 0, g2 = 0, g3 = 0, ord = 0, shell_start = 0, shell_end = 1\<rparr>,
      \<lparr>g1 = - 1, g2 = 0, g3 = 0, ord = 1, shell_start = 1, shell_end = 7\<rparr>,
      \<lparr>g1 = 1, g2 = 0, g3 = 0, ord = 2, shell_start = 1, shell_end = 7\<rparr>,
      \<lparr>g1 = 0, g2 = - 1, g3 = 0, ord = 3, shell_start = 1, shell_end = 7\<rparr>,
      \<lparr>g1 = 0, g2 = 1, g3 = 0, ord = 4, shell_start = 1, shell_end = 7\<rparr>,
      \<lparr>g1 = 0, g2 = 0, g3 = - 1, ord = 5, shell_start = 1, shell_end = 7\<rparr>,
      \<lparr>g1 = 0, g2 = 0, g3 = 1, ord = 6, shell_start = 1, shell_end = 7\<rparr>]"
    by code_simp
  have l: "map int [0..<length
     [\<lparr>g1 = 0, g2 = 0, g3 = 0, ord = 0, shell_start = 0, shell_end = 1\<rparr>,
      \<lparr>g1 = - 1, g2 = 0, g3 = 0, ord = 1, shell_start = 1, shell_end = 7\<rparr>,
      \<lparr>g1 = 1, g2 = 0, g3 = 0, ord = 2, shell_start = 1, shell_end = 7\<rparr>,
      \<lparr>g1 = 0, g2 = - 1, g3 = 0, ord = 3, shell_start = 1, shell_end = 7\<rparr>,
      \<lparr>g1 = 0, g2 = 1, g3 = 0, ord = 4, shell_start = 1, shell_end = 7\<rparr>,
      \<lparr>g1 = 0, g2 = 0, g3 = - 1, ord = 5, shell_start = 1, shell_end = 7\<rparr>,
      \<lparr>g1 = 0, g2 = 0, g3 = 1, ord = 6, shell_start = 1, shell_end = 7\<rparr>]] = [0, 1, 2, 3, 4, 5, 6]"
    by code_simp
  from identity_rotation [OF h, of "(1 / 4, 1 / 3, 0)" "((2, 0, 0), (0, 3, 0), (0, 0, 5))"] h l
  show ?thesis by (intro conjI)
qed

text \<open>
  C1 (amended).  Every table that \<open>calc_gvectors\<close> returns is sorted by ascending energy;
  the energy of every row is strictly below \<open>Ecut\<close> and at most the effective \<open>Ecut1\<close>
  (\<open>Ecut\<close> itself when the given \<open>Ecut1\<close> is not positive); the bounds in columns 5 and 6
  of a row enclose its own position, are shared by all rows in between, neighbours inside
  a shell differ in energy by at most \<open>thresh\<close>, and the step from the last row of a shell
  to the first row of the next exceeds \<open>thresh\<close>.
\<close>

theorem calc_gvectors_table:
  assumes "calc_gvectors K B Ecut nplane Ecut1 thresh spinor nplanemax = Inr tbl"
  shows "sorted (map (\<lambda>c. etot K B (gvec_of c)) tbl) \<and>
         (\<forall>c \<in> set tbl. etot K B (gvec_of c) < Ecut \<and>
            etot K B (gvec_of c) \<le> (if Ecut1 \<le> 0 then Ecut else Ecut1)) \<and>
         (\<forall>i < length tbl. \<exists>a b.
            shell_start (tbl ! i) = int a \<and> shell_end (tbl ! i) = int b \<and>
            a \<le> i \<and> i < b \<and> b \<le> length tbl \<and>
            (\<forall>j. a \<le> j \<and> j < b \<longrightarrow>
               shell_start (tbl ! j) = int a \<and> shell_end (tbl ! j) = int b) \<and>
            (\<forall>j. a \<le> j \<and> Suc j < b \<longrightarrow>
               etot K B (gvec_of (tbl ! Suc j)) - etot K B (gvec_of (tbl ! j)) \<le> thresh) \<and>
            (b < length tbl \<longrightarrow>
               etot K B (gvec_of (tbl ! b)) - etot K B (gvec_of (tbl ! (b - 1))) > thresh))"
proof (intro conjI ballI allI impI)
  show "sorted (map (\<lambda>c. etot K B (gvec_of c)) tbl)"
    using assms by (rule calc_gvectors_sorted)
next
  fix c assume "c \<in> set tbl"
  with assms show "etot K B (gvec_of c) < Ecut"
    and "etot K B (gvec_of c) \<le> (if Ecut1 \<le> 0 then Ecut else Ecut1)"
    by (rule calc_gvectors_energy)+
next
  fix i assume "i < length tbl"
  with assms show "\<exists>a b.
            shell_start (tbl ! i) = int a \<and> shell_end (tbl ! i) = int b \<and>
            a \<le> i \<and> i < b \<and> b \<le> length tbl \<and>
            (\<forall>j. a \<le> j \<and> j < b \<longrightarrow>
               shell_start (tbl ! j) = int a \<and> shell_end (tbl ! j) = int b) \<and>
            (\<forall>j. a \<le> j \<and> Suc j < b \<longrightarrow>
               etot K B (gvec_of (tbl ! Suc j)) - etot K B (gvec_of (tbl ! j)) \<le> thresh) \<and>
            (b < length tbl \<longrightarrow>
               etot K B (gvec_of (tbl ! b)) - etot K B (gvec_of (tbl ! (b - 1))) > thresh)"
    by (rule calc_gvectors_shells)
qed

theorem calc_gvectors_table_witness:
  "calc_gvectors (0, 0, 0) ((1, 0, 0), (0, 1, 0), (0, 0, 1)) 4 None 0 (1 / 1000) False 2 =
     Inr [\<lparr>g1 = 0, g2 = 0, g3 = 0, ord = 0, shell_start = 0, shell_end = 1\<rparr>,
      \<lparr>g1 = - 1, g2 = 0, g3 = 0, ord = 1, shell_start = 1, shell_end = 7\<rparr>,
      \<lparr>g1 = 1, g2 = 0, g3 = 0, ord = 2, shell_start = 1, shell_end = 7\<rparr>,
      \<lparr>g1 = 0, g2 = - 1, g3 = 0, ord = 3, shell_start = 1, shell_end = 7\<rparr>,
      \<lparr>g1 = 0, g2 = 1, g3 = 0, ord = 4, shell_start = 1, shell_end = 7\<rparr>,
      \<lparr>g1 = 0, g2 = 0, g3 = - 1, ord = 5, shell_start = 1, shell_end = 7\<rparr>,
      \<lparr>g1 = 0, g2 = 0, g3 = 1, ord = 6, shell_start = 1, shell_end = 7\<rparr>] \<and>
   sorted (map (\<lambda>c. etot (0, 0, 0) ((1, 0, 0), (0, 1, 0), (0, 0, 1)) (gvec_of c))
     [\<lparr>g1 = 0, g2 = 0, g3 = 0, ord = 0, shell_start = 0, shell_end = 1\<rparr>,
      \<lparr>g1 = - 1, g2 = 0, g3 = 0, ord = 1, shell_start = 1, shell_end = 7\<rparr>,
      \<lparr>g1 = 1, g2 = 0, g3 = 0, ord = 2, shell_start = 1, shell_end = 7\<rparr>,
      \<lparr>g1 = 0, g2 = - 1, g3 = 0, ord = 3, shell_start = 1, shell_end = 7\<rparr>,
      \<lparr>g1 = 0, g2 = 1, g3 = 0, ord = 4, shell_start = 1, shell_end = 7\<rparr>,
      \<lparr>g1 = 0, g2 = 0, g3 = - 1, ord = 5, shell_start = 1, shell_end = 7\<rparr>,
      \<lparr>g1 = 0, g2 = 0, g3 = 1, ord = 6, shell_start = 1, shell_end = 7\<rparr>]) \<and>
   etot (0, 0, 0) ((1, 0, 0), (0, 1, 0), (0, 0, 1)) (gvec_of \<lparr>g1 = - 1, g2 = 0, g3 = 0, ord = 1, shell_start = 1, shell_end = 7\<rparr>) < 4"
proof -
  have h: "calc_gvectors (0, 0, 0) ((1, 0, 0), (0, 1, 0), (0, 0, 1)) 4 None 0 (1 / 1000) False 2 =
     Inr [\<lparr>g1 = 0, g2 = 0, g3 = 0, ord = 0, shell_start = 0, shell_end = 1\<rparr>,
      \<lparr>g1 = - 1, g2 = 0, g3 = 0, ord = 1, shell_start = 1, shell_end = 7\<rparr>,
      \<lparr>g1 = 1, g2 = 0, g3 = 0, ord = 2, shell_start = 1, shell_end = 7\<rparr>,
      \<lparr>g1 = 0, g2 = - 1, g3 = 0, ord = 3, shell_start = 1, shell_end = 7\<rparr>,
      \<lparr>g1 = 0, g2 = 1, g3 = 0, ord = 4, shell_start = 1, shell_end = 7\<rparr>,
      \<lparr>g1 = 0, g2 = 0, g3 = - 1, ord = 5, shell_start = 1, shell_end = 7\<rparr>,
      \<lparr>g1 = 0, g2 = 0, g3 = 1, ord = 6, shell_start = 1, shell_end = 7\<rparr>]"
    by code_simp
  note t = calc_gvectors_table [OF h]
  from t have s: "sorted (map (\<lambda>c. etot (0, 0, 0) ((1, 0, 0), (0, 1, 0), (0, 0, 1)) (gvec_of c))
     [\<lparr>g1 = 0, g2 = 0, g3 = 0, ord = 0, shell_start = 0, shell_end = 1\<rparr>,
      \<lparr>g1 = - 1, g2 = 0, g3 = 0, ord = 1, shell_start = 1, shell_end = 7\<rparr>,
      \<lparr>g1 = 1, g2 = 0, g3 = 0, ord = 2, shell_start = 1, shell_end = 7\<rparr>,
      \<lparr>g1 = 0, g2 = - 1, g3 = 0, ord = 3, shell_start = 1, shell_end = 7\<rparr>,
      \<lparr>g1 = 0, g2 = 1, g3 = 0, ord = 4, shell_start = 1, shell_end = 7\<rparr>,
      \<lparr>g1 = 0, g2 = 0, g3 = - 1, ord = 5, shell_start = 1, shell_end = 7\<rparr>,
      \<lparr>g1 = 0, g2 = 0, g3 = 1, ord = 6, shell_start = 1, shell_end = 7\<rparr>])"
    by (rule conjunct1)
  from t have "\<forall>c \<in> set [\<lparr>g1 = 0, g2 = 0, g3 = 0, ord = 0, shell_start = 0, shell_end = 1\<rparr>,
      \<lparr>g1 = - 1, g2 = 0, g3 = 0, ord = 1, shell_start = 1, shell_end = 7\<rparr>,
      \<lparr>g1 = 1, g2 = 0, g3 = 0, ord = 2, shell_start = 1, shell_end = 7\<rparr>,
      \<lparr>g1 = 0, g2 = - 1, g3 = 0, ord = 3, shell_start = 1, shell_end = 7\<rparr>,
      \<lparr>g1 = 0, g2 = 1, g3 = 0, ord = 4, shell_start = 1, shell_end = 7\<rparr>,
      \<lparr>g1 = 0, g2 = 0, g3 = - 1, ord = 5, shell_start = 1, shell_end = 7\<rparr>,
      \<lparr>g1 = 0, g2 = 0, g3 = 1, ord = 6, shell_start = 1, shell_end = 7\<rparr>].
      etot (0, 0, 0) ((1, 0, 0), (0, 1, 0), (0, 0, 1)) (gvec_of c) < 4 \<and>
      etot (0, 0, 0) ((1, 0, 0), (0, 1, 0), (0, 0, 1)) (gvec_of c) \<le> (if (0 :: real) \<le> 0 then 4 else 0)"
    by (rule conjunct1 [OF conjunct2])
  then have e: "etot (0, 0, 0) ((1, 0, 0), (0, 1, 0), (0, 0, 1)) (gvec_of \<lparr>g1 = - 1, g2 = 0, g3 = 0, ord = 1, shell_start = 1, shell_end = 7\<rparr>) < 4"
    by simp
  from h s e show ?thesis by (intro conjI)
qed

text \<open>
  C1 as stated asks for energies strictly below \<open>Ecut1\<close>.  With \<open>Ecut1\<close> the energy of the
  six shortest non-zero vectors of the cubic lattice (and \<open>Ecut1 \<le> Ecut = 4\<close>), these six
  rows stay in the table: the cut keeps \<open>Eg <= Ecut1\<close>.
\<close>

theorem energy_equals_Ecut1_counterexample:
  "calc_gvectors (0, 0, 0) ((1, 0, 0), (0, 1, 0), (0, 0, 1)) 4 None (1000000000 / 262465831) (1 / 1000) False 2 =
     Inr [\<lparr>g1 = 0, g2 = 0, g3 = 0, ord = 0, shell_start = 0, shell_end = 1\<rparr>,
      \<lparr>g1 = - 1, g2 = 0, g3 = 0, ord = 1, shell_start = 1, shell_end = 7\<rparr>,
      \<lparr>g1 = 1, g2 = 0, g3 = 0, ord = 2, shell_start = 1, shell_end = 7\<rparr>,
      \<lparr>g1 = 0, g2 = - 1, g3 = 0, ord = 3, shell_start = 1, shell_end = 7\<rparr>,
      \<lparr>g1 = 0, g2 = 1, g3 = 0, ord = 4, shell_start = 1, shell_end = 7\<rparr>,
      \<lparr>g1 = 0, g2 = 0, g3 = - 1, ord = 5, shell_start = 1, shell_end = 7\<rparr>,
      \<lparr>g1 = 0, g2 = 0, g3 = 1, ord = 6, shell_start = 1, shell_end = 7\<rparr>] \<and>
   etot (0, 0, 0) ((1, 0, 0), (0, 1, 0), (0, 0, 1)) (gvec_of ([\<lparr>g1 = 0, g2 = 0, g3 = 0, ord = 0, shell_start = 0, shell_end = 1\<rparr>,
      \<lparr>g1 = - 1, g2 = 0, g3 = 0, ord = 1, shell_start = 1, shell_end = 7\<rparr>,
      \<lparr>g1 = 1, g2 = 0, g3 = 0, ord = 2, shell_start = 1, shell_end = 7\<rparr>,
      \<lparr>g1 = 0, g2 = - 1, g3 = 0, ord = 3, shell_start = 1, shell_end = 7\<rparr>,
      \<lparr>g1 = 0, g2 = 1, g3 = 0, ord = 4, shell_start = 1, shell_end = 7\<rparr>,
      \<lparr>g1 = 0, g2 = 0, g3 = - 1, ord = 5, shell_start = 1, shell_end = 7\<rparr>,
      \<lparr>g1 = 0, g2 = 0, g3 = 1, ord = 6, shell_start = 1, shell_end = 7\<rparr>] ! 1)) = 1000000000 / 262465831 \<and>
   \<not> etot (0, 0, 0) ((1, 0, 0), (0, 1, 0), (0, 0, 1)) (gvec_of ([\<lparr>g1 = 0, g2 = 0, g3 = 0, ord = 0, shell_start = 0, shell_end = 1\<rparr>,
      \<lparr>g1 = - 1, g2 = 0, g3 = 0, ord = 1, shell_start = 1, shell_end = 7\<rparr>,
      \<lparr>g1 = 1, g2 = 0, g3 = 0, ord = 2, shell_start = 1, shell_end = 7\<rparr>,
      \<lparr>g1 = 0, g2 = - 1, g3 = 0, ord = 3, shell_start = 1, shell_end = 7\<rparr>,
      \<lparr>g1 = 0, g2 = 1, g3 = 0, ord = 4, shell_start = 1, shell_end = 7\<rparr>,
      \<lparr>g1 = 0, g2 = 0, g3 = - 1, ord = 5, shell_start = 1, shell_end = 7\<rparr>,
      \<lparr>g1 = 0, g2 = 0, g3 = 1, ord = 6, shell_start = 1, shell_end = 7\<rparr>] ! 1)) < 1000000000 / 262465831 \<and>
   (1000000000 / 262465831 :: real) \<le> 4"
  by code_simp

end
